theory Spec2Isabelle
  imports Complex_Main
begin

section \<open>Python text primitives\<close>

text \<open>
  Python strings are modelled as HOL strings restricted to ASCII text: the character
  classes below are the ASCII part of \<^verbatim>\<open>str.isspace\<close>, \<^verbatim>\<open>str.isdigit\<close> and of the letter
  tests, which is also what the regular-expression classes \<^verbatim>\<open>\s\<close>, \<^verbatim>\<open>\d\<close>, \<^verbatim>\<open>\D\<close> match on
  ASCII input. Every other character is treated as neither space, digit nor letter.
\<close>

definition space_chars :: "char list" where
  "space_chars = [CHR 0x09, CHR 0x0A, CHR 0x0B, CHR 0x0C, CHR 0x0D,
                  CHR 0x1C, CHR 0x1D, CHR 0x1E, CHR 0x1F, CHR '' '']"

definition is_space :: "char \<Rightarrow> bool" where
  "is_space c = (c \<in> set space_chars)"

definition is_digit :: "char \<Rightarrow> bool" where
  "is_digit c = (c \<in> set ''0123456789'')"

definition upper_letters :: "char list" where
  "upper_letters = ''ABCDEFGHIJKLMNOPQRSTUVWXYZ''"

definition lower_letters :: "char list" where
  "lower_letters = ''abcdefghijklmnopqrstuvwxyz''"

definition is_upper :: "char \<Rightarrow> bool" where
  "is_upper c = (c \<in> set upper_letters)"

definition is_lower :: "char \<Rightarrow> bool" where
  "is_lower c = (c \<in> set lower_letters)"

definition is_alpha :: "char \<Rightarrow> bool" where
  "is_alpha c = (is_upper c \<or> is_lower c)"

definition lower_char :: "char \<Rightarrow> char" where
  "lower_char c = (case map_of (zip upper_letters lower_letters) c of Some d \<Rightarrow> d | None \<Rightarrow> c)"

definition upper_char :: "char \<Rightarrow> char" where
  "upper_char c = (case map_of (zip lower_letters upper_letters) c of Some d \<Rightarrow> d | None \<Rightarrow> c)"

text \<open>\<^verbatim>\<open>str.lower()\<close>\<close>

definition lower :: "string \<Rightarrow> string" where
  "lower s = map lower_char s"

text \<open>\<^verbatim>\<open>str.strip()\<close>: leading and trailing whitespace removed.\<close>

definition lstrip :: "string \<Rightarrow> string" where
  "lstrip s = dropWhile is_space s"

definition rstrip :: "string \<Rightarrow> string" where
  "rstrip s = rev (dropWhile is_space (rev s))"

definition strip :: "string \<Rightarrow> string" where
  "strip s = rstrip (lstrip s)"

text \<open>
  \<^verbatim>\<open>str.title()\<close>: a letter that follows a letter is lower-cased, any other letter is
  upper-cased; the flag says whether the previous character was a letter.
\<close>

fun title_from :: "bool \<Rightarrow> string \<Rightarrow> string" where
  "title_from prev [] = []"
| "title_from prev (c # cs) =
     (if is_alpha c
      then (if prev then lower_char c else upper_char c) # title_from True cs
      else c # title_from False cs)"

definition title :: "string \<Rightarrow> string" where
  "title s = title_from False s"

section \<open>The table, the change log and the cleaner\<close>

text \<open>
  A Python float is a binary64 value: a finite value is carried as the rational it denotes
  (the sign of zero is not kept), next to the two infinities and NaN.
\<close>

datatype pyfloat = Fin rat | PInf | NInf | NaN

text \<open>
  A cell of a numeric column is a text or a number; the missing value of pandas is the
  float NaN (\<^verbatim>\<open>np.nan\<close>), and \<^verbatim>\<open>pd.isna\<close> tests for it.
\<close>

datatype cell = Text string | Num pyfloat

definition isna :: "cell \<Rightarrow> bool" where
  "isna v = (v = Num NaN)"

text \<open>
  One row of the order table. The columns that \<^verbatim>\<open>read_csv\<close> loads as text hold a string
  or a missing value (\<open>None\<close> stands for the NaN of such a column); \<^verbatim>\<open>quantity\<close> and
  \<^verbatim>\<open>price\<close> may hold numbers as well.
\<close>

record row =
  order_id :: "string option"
  customer_name :: "string option"
  email :: "string option"
  phone :: "string option"
  order_date :: "string option"
  product_name :: "string option"
  category :: "string option"
  quantity :: cell
  price :: cell
  status :: "string option"

record log_entry =
  step :: string
  description :: string
  count :: int

record cleaner =
  df :: "row list"
  original_df :: "row list"
  cleaning_log :: "log_entry list"

definition log_change :: "string \<Rightarrow> string \<Rightarrow> int \<Rightarrow> cleaner \<Rightarrow> cleaner" where
  "log_change st des n c =
     c\<lparr>cleaning_log := cleaning_log c @ [\<lparr>step = st, description = des, count = n\<rparr>]\<rparr>"

text \<open>\<^verbatim>\<open>Series.notna().sum()\<close> and \<^verbatim>\<open>len\<close>, as Python integers.\<close>

definition notna_sum :: "'a option list \<Rightarrow> int" where
  "notna_sum col = int (length (filter (\<lambda>v. v \<noteq> None) col))"

section \<open>Step 1: duplicates\<close>

text \<open>
  \<^verbatim>\<open>DataFrame.drop_duplicates()\<close> keeps the rows that \<^verbatim>\<open>duplicated(keep='first')\<close> does not
  mark: a row is marked when an equal row occurs before it (missing values compare equal).
\<close>

fun duplicated :: "'a list \<Rightarrow> 'a list \<Rightarrow> bool list" where
  "duplicated seen [] = []"
| "duplicated seen (x # xs) = (x \<in> set seen) # duplicated (x # seen) xs"

definition drop_duplicates :: "'a list \<Rightarrow> 'a list" where
  "drop_duplicates t = map fst (filter (\<lambda>(r, d). \<not> d) (zip t (duplicated [] t)))"

definition remove_duplicates :: "cleaner \<Rightarrow> cleaner" where
  "remove_duplicates c =
     (let initial_count = int (length (df c));
          c1 = c\<lparr>df := drop_duplicates (df c)\<rparr>;
          duplicates_removed = initial_count - int (length (df c1))
      in if duplicates_removed > 0
         then log_change ''remove_duplicates'' ''Duplicate rows removed'' duplicates_removed c1
         else c1)"

section \<open>Step 4: phone numbers\<close>

definition format_phone :: "string option \<Rightarrow> string option" where
  "format_phone ph =
     (case ph of
        None \<Rightarrow> None
      | Some s \<Rightarrow>
          (let digits = filter is_digit s;
               digits = (if length digits = 11 \<and> take 1 digits = ''1''
                         then drop 1 digits else digits)
           in if length digits = 10
              then Some (take 3 digits @ ''-'' @ take 3 (drop 3 digits) @ ''-''
                         @ take 4 (drop 6 digits))
              else None))"

definition clean_phone_numbers :: "cleaner \<Rightarrow> cleaner" where
  "clean_phone_numbers c =
     (let valid_before = notna_sum (map phone (df c));
          c1 = c\<lparr>df := map (\<lambda>r. r\<lparr>phone := format_phone (phone r)\<rparr>) (df c)\<rparr>;
          valid_after = notna_sum (map phone (df c1));
          invalid_count = valid_before - valid_after
      in if invalid_count > 0
         then log_change ''clean_phone_numbers'' ''Invalid phone numbers removed'' invalid_count c1
         else c1)"

text \<open>The shape \<^verbatim>\<open>DDD-DDD-DDDD\<close> of a list of ten digits.\<close>

definition dashed :: "string \<Rightarrow> string" where
  "dashed d = take 3 d @ ''-'' @ take 3 (drop 3 d) @ ''-'' @ drop 6 d"

definition phone_shape :: "string \<Rightarrow> bool" where
  "phone_shape p = (length p = 12 \<and> p ! 3 = CHR ''-'' \<and> p ! 7 = CHR ''-'' \<and>
     list_all is_digit (take 3 p @ take 3 (drop 4 p) @ drop 8 p))"

text \<open>The phone digits after the country-code strip.\<close>

definition phone_digits :: "string \<Rightarrow> string" where
  "phone_digits s =
     (let d = filter is_digit s
      in if length d = 11 \<and> hd d = CHR ''1'' then tl d else d)"

section \<open>Step 2: whitespace\<close>

text \<open>
  What \<^verbatim>\<open>Series.astype(str)\<close> does with a missing value depends on the version of pandas,
  which the repository does not fix: before 3.0 the missing value becomes the string
  \<^verbatim>\<open>nan\<close>, from 3.0 on it stays missing. The version is a parameter of the step.
\<close>

datatype pandas = Before_3 | From_3

definition astype_str :: "pandas \<Rightarrow> string option \<Rightarrow> string option" where
  "astype_str pd v =
     (case v of
        Some s \<Rightarrow> Some s
      | None \<Rightarrow> (case pd of Before_3 \<Rightarrow> Some ''nan'' | From_3 \<Rightarrow> None))"

text \<open>\<^verbatim>\<open>re.sub(r'\s+', ' ', s)\<close>: every maximal run of whitespace becomes one space.\<close>

function collapse_spaces :: "string \<Rightarrow> string" where
  "collapse_spaces [] = []"
| "collapse_spaces (c # cs) =
     (if is_space c then CHR '' '' # collapse_spaces (dropWhile is_space cs)
      else c # collapse_spaces cs)"
  by pat_completeness auto
termination
  by (relation "measure length") (auto simp: le_imp_less_Suc length_dropWhile_le)

text \<open>\<^verbatim>\<open>s.replace('\t', ' ')\<close>\<close>

definition replace_tab :: "string \<Rightarrow> string" where
  "replace_tab s = map (\<lambda>c. if c = CHR 0x09 then CHR '' '' else c) s"

datatype column = Customer_name | Email | Product_name | Category | Status

fun get_text :: "column \<Rightarrow> row \<Rightarrow> string option" where
  "get_text Customer_name r = customer_name r"
| "get_text Email r = email r"
| "get_text Product_name r = product_name r"
| "get_text Category r = category r"
| "get_text Status r = status r"

fun set_text :: "column \<Rightarrow> string option \<Rightarrow> row \<Rightarrow> row" where
  "set_text Customer_name v r = r\<lparr>customer_name := v\<rparr>"
| "set_text Email v r = r\<lparr>email := v\<rparr>"
| "set_text Product_name v r = r\<lparr>product_name := v\<rparr>"
| "set_text Category v r = r\<lparr>category := v\<rparr>"
| "set_text Status v r = r\<lparr>status := v\<rparr>"

definition text_columns :: "column list" where
  "text_columns = [Customer_name, Email, Product_name, Category, Status]"

text \<open>
  The three string operations of the loop body on a present value: \<^verbatim>\<open>strip\<close>, the
  substitution of \<^verbatim>\<open>\s+\<close>, and the replacement of tabs.
\<close>

definition tidy :: "string \<Rightarrow> string" where
  "tidy s = replace_tab (collapse_spaces (strip s))"

text \<open>
  The new value of a cell of a text column. The \<^verbatim>\<open>.str\<close> operations leave a missing value
  missing.
\<close>

definition clean_text :: "pandas \<Rightarrow> string option \<Rightarrow> string option" where
  "clean_text pd v = map_option tidy (astype_str pd v)"

text \<open>
  The comparison \<^verbatim>\<open>!=\<close> of two cells of a text column: it is true where a cell is missing.
\<close>

definition series_ne :: "string option \<Rightarrow> string option \<Rightarrow> bool" where
  "series_ne a b = (case a of None \<Rightarrow> True | Some x \<Rightarrow> (case b of None \<Rightarrow> True | Some y \<Rightarrow> x \<noteq> y))"

text \<open>\<^verbatim>\<open>has_whitespace\<close> of a cell, and its column sum.\<close>

definition has_whitespace :: "pandas \<Rightarrow> string option \<Rightarrow> bool" where
  "has_whitespace pd v = series_ne (map_option strip (astype_str pd v)) (astype_str pd v)"

text \<open>One round of the loop over \<^verbatim>\<open>text_columns\<close>; the state is the table and \<^verbatim>\<open>total_cleaned\<close>.\<close>

definition clean_column :: "pandas \<Rightarrow> column \<Rightarrow> row list \<times> int \<Rightarrow> row list \<times> int" where
  "clean_column pd col st =
     (let t = fst st; total_cleaned = snd st;
          cnt = int (length (filter (\<lambda>r. has_whitespace pd (get_text col r)) t));
          t1 = map (\<lambda>r. set_text col (clean_text pd (get_text col r)) r) t
      in (t1, if cnt > 0 then total_cleaned + cnt else total_cleaned))"

definition clean_whitespace :: "pandas \<Rightarrow> cleaner \<Rightarrow> cleaner" where
  "clean_whitespace pd c =
     (let st = fold (clean_column pd) text_columns (df c, 0)
      in log_change ''clean_whitespace'' ''Whitespace cleaned in text fields'' (snd st)
           (c\<lparr>df := fst st\<rparr>))"

section \<open>Regular expressions\<close>

text \<open>
  The fragment of regular expressions the email pattern needs: a character class is the list
  of its characters. \<open>fullmatch\<close> decides whether the whole string is in the language, by
  derivatives.
\<close>

datatype rx = Never | Eps | Cls "char list" | Seq rx rx | Alt rx rx | Star rx

fun nullable :: "rx \<Rightarrow> bool" where
  "nullable Never = False"
| "nullable Eps = True"
| "nullable (Cls cs) = False"
| "nullable (Seq a b) = (nullable a \<and> nullable b)"
| "nullable (Alt a b) = (nullable a \<or> nullable b)"
| "nullable (Star a) = True"

fun deriv :: "char \<Rightarrow> rx \<Rightarrow> rx" where
  "deriv x Never = Never"
| "deriv x Eps = Never"
| "deriv x (Cls cs) = (if x \<in> set cs then Eps else Never)"
| "deriv x (Seq a b) =
     (if nullable a then Alt (Seq (deriv x a) b) (deriv x b) else Seq (deriv x a) b)"
| "deriv x (Alt a b) = Alt (deriv x a) (deriv x b)"
| "deriv x (Star a) = Seq (deriv x a) (Star a)"

fun fullmatch :: "rx \<Rightarrow> string \<Rightarrow> bool" where
  "fullmatch r [] = nullable r"
| "fullmatch r (x # xs) = fullmatch (deriv x r) xs"

text \<open>
  \<^verbatim>\<open>re.match\<close> of a pattern \<^verbatim>\<open>^r$\<close>: the pattern must start at the beginning of the string, and
  \<^verbatim>\<open>$\<close> matches at the end of the string and also just before a newline that ends the string.
\<close>

definition re_match_anchored :: "rx \<Rightarrow> string \<Rightarrow> bool" where
  "re_match_anchored r s =
     (fullmatch r s \<or> (s \<noteq> [] \<and> last s = CHR 0x0A \<and> fullmatch r (butlast s)))"

text \<open>The language of a regular expression, for stating what \<open>fullmatch\<close> decides.\<close>

inductive_set star :: "string set \<Rightarrow> string set" for A :: "string set" where
  star_nil: "[] \<in> star A"
| star_app: "u \<in> A \<Longrightarrow> v \<in> star A \<Longrightarrow> u @ v \<in> star A"

fun lang :: "rx \<Rightarrow> string set" where
  "lang Never = {}"
| "lang Eps = {[]}"
| "lang (Cls cs) = {[x] | x. x \<in> set cs}"
| "lang (Seq a b) = {u @ v | u v. u \<in> lang a \<and> v \<in> lang b}"
| "lang (Alt a b) = lang a \<union> lang b"
| "lang (Star a) = star (lang a)"

section \<open>Step 3: emails\<close>

definition digit_chars :: "char list" where
  "digit_chars = ''0123456789''"

text \<open>\<^verbatim>\<open>r'^[a-zA-Z0-9._%+-]+@[a-zA-Z0-9.-]+\.[a-zA-Z]{2,}$'\<close>, between the anchors.\<close>

definition local_class :: "char list" where
  "local_class = lower_letters @ upper_letters @ digit_chars @ ''._%+-''"

definition domain_class :: "char list" where
  "domain_class = lower_letters @ upper_letters @ digit_chars @ ''.-''"

definition letter_class :: "char list" where
  "letter_class = lower_letters @ upper_letters"

definition rx_plus :: "rx \<Rightarrow> rx" where
  "rx_plus r = Seq r (Star r)"

definition email_pattern :: rx where
  "email_pattern =
     Seq (rx_plus (Cls local_class))
      (Seq (Cls ''@'')
        (Seq (rx_plus (Cls domain_class))
          (Seq (Cls ''.'')
            (Seq (Cls letter_class) (Seq (Cls letter_class) (Star (Cls letter_class)))))))"

text \<open>\<^verbatim>\<open>valid_emails\<close> of a row (\<^verbatim>\<open>na=False\<close>: a missing value does not match).\<close>

definition valid_email :: "row \<Rightarrow> bool" where
  "valid_email r = (case email r of None \<Rightarrow> False | Some s \<Rightarrow> re_match_anchored email_pattern s)"

definition invalid_email :: "row \<Rightarrow> bool" where
  "invalid_email r = (\<not> valid_email r \<and> email r \<noteq> None)"

definition standardize_emails :: "cleaner \<Rightarrow> cleaner" where
  "standardize_emails c =
     (let t1 = map (\<lambda>r. r\<lparr>email := map_option lower (email r)\<rparr>) (df c);
          invalid_count = int (length (filter invalid_email t1));
          t2 = map (\<lambda>r. if invalid_email r then r\<lparr>email := None\<rparr> else r) t1;
          c2 = c\<lparr>df := t2\<rparr>
      in if invalid_count > 0
         then log_change ''standardize_emails'' ''Invalid emails removed'' invalid_count c2
         else c2)"

text \<open>The email of a row after the step: lower-cased, and missing if it is invalid.\<close>

definition email_value :: "string option \<Rightarrow> string option" where
  "email_value v =
     (case v of
        None \<Rightarrow> None
      | Some s \<Rightarrow> if re_match_anchored email_pattern (lower s) then Some (lower s) else None)"

text \<open>
  The pattern in words: a local part, \<^verbatim>\<open>@\<close>, a domain, a dot, and a top-level label of at
  least two letters, spanning the whole string.
\<close>

definition email_shape :: "string \<Rightarrow> bool" where
  "email_shape s =
     (\<exists>l d t. s = l @ ''@'' @ d @ ''.'' @ t
        \<and> l \<noteq> [] \<and> set l \<subseteq> set local_class
        \<and> d \<noteq> [] \<and> set d \<subseteq> set domain_class
        \<and> 2 \<le> length t \<and> set t \<subseteq> set letter_class)"

definition is_lowercase :: "string \<Rightarrow> bool" where
  "is_lowercase s = (\<forall>x \<in> set s. \<not> is_upper x)"

section \<open>Step 5: dates\<close>

record datetime =
  year :: int
  month :: int
  day :: int
  hour :: int
  minute :: int
  second :: int
  microsecond :: int

text \<open>\<^verbatim>\<open>a > b\<close> on naive datetimes: lexicographic on the seven fields.\<close>

definition datetime_fields :: "datetime \<Rightarrow> int list" where
  "datetime_fields a = [year a, month a, day a, hour a, minute a, second a, microsecond a]"

fun lex_gt :: "int list \<Rightarrow> int list \<Rightarrow> bool" where
  "lex_gt (x # xs) (y # ys) = (x > y \<or> (x = y \<and> lex_gt xs ys))"
| "lex_gt _ _ = False"

definition datetime_gt :: "datetime \<Rightarrow> datetime \<Rightarrow> bool" where
  "datetime_gt a b = lex_gt (datetime_fields a) (datetime_fields b)"

text \<open>The Gregorian calendar of \<^verbatim>\<open>datetime\<close>, with \<^verbatim>\<open>MINYEAR = 1\<close> and \<^verbatim>\<open>MAXYEAR = 9999\<close>.\<close>

definition is_leap :: "int \<Rightarrow> bool" where
  "is_leap y = (y mod 4 = 0 \<and> (y mod 100 \<noteq> 0 \<or> y mod 400 = 0))"

definition days_in_month :: "int \<Rightarrow> int \<Rightarrow> int" where
  "days_in_month y m =
     (if m = 2 then (if is_leap y then 29 else 28)
      else if m = 4 \<or> m = 6 \<or> m = 9 \<or> m = 11 then 30 else 31)"

definition valid_date :: "int \<Rightarrow> int \<Rightarrow> int \<Rightarrow> bool" where
  "valid_date y m d = (1 \<le> y \<and> y \<le> 9999 \<and> 1 \<le> m \<and> m \<le> 12 \<and> 1 \<le> d \<and> d \<le> days_in_month y m)"

subsection \<open>\<^verbatim>\<open>datetime.strptime\<close>\<close>

text \<open>
  \<^verbatim>\<open>strptime\<close> turns the format into a regular expression, one group per directive, a run of
  whitespace in the format becoming \<^verbatim>\<open>\s+\<close>, and matches it case-insensitively at the start
  of the string. The match the backtracking matcher finds first must end at the end of the
  string. The model lists the matches in the matcher's order of preference.
\<close>

datatype directive = Dir_m | Dir_d | Dir_Y | Dir_b | Dir_B | Lit char | Spaces | Unsupported

definition directive_of :: "char \<Rightarrow> directive" where
  "directive_of x =
     (if x = CHR ''m'' then Dir_m else if x = CHR ''d'' then Dir_d
      else if x = CHR ''Y'' then Dir_Y else if x = CHR ''b'' then Dir_b
      else if x = CHR ''B'' then Dir_B else Unsupported)"

function compile_format :: "string \<Rightarrow> directive list" where
  "compile_format [] = []"
| "compile_format [c] = (if is_space c then [Spaces] else [Lit c])"
| "compile_format (c # x # r) =
     (if c = CHR ''%'' then directive_of x # compile_format r
      else if is_space c then Spaces # compile_format (dropWhile is_space (x # r))
      else Lit c # compile_format (x # r))"
  by pat_completeness auto
termination
proof (relation "measure length")
  fix c x :: char and r :: string
  have "length (dropWhile is_space (x # r)) \<le> length (x # r)"
    by (rule length_dropWhile_le)
  then show "(dropWhile is_space (x # r), c # x # r) \<in> measure length"
    by simp
qed auto

text \<open>One alternative of a group: a character from each of the given classes, in turn.\<close>

fun chars_of :: "char list list \<Rightarrow> string \<Rightarrow> (string \<times> string) list" where
  "chars_of [] s = [([], s)]"
| "chars_of (cls # rest) [] = []"
| "chars_of (cls # rest) (x # xs) =
     (if x \<in> set cls then map (\<lambda>(m, r). (x # m, r)) (chars_of rest xs) else [])"

text \<open>One alternative that is a word, compared without regard to case.\<close>

definition word_of :: "string \<Rightarrow> string \<Rightarrow> (string \<times> string) list" where
  "word_of w s =
     (if lower (take (length w) s) = lower w \<and> length w \<le> length s
      then [(take (length w) s, drop (length w) s)] else [])"

definition nonzero_digits :: "char list" where
  "nonzero_digits = ''123456789''"

definition abbr_months :: "string list" where
  "abbr_months = [''jan'', ''feb'', ''mar'', ''apr'', ''may'', ''jun'',
                  ''jul'', ''aug'', ''sep'', ''oct'', ''nov'', ''dec'']"

definition full_months :: "string list" where
  "full_months = [''january'', ''february'', ''march'', ''april'', ''may'', ''june'', ''july'',
                  ''august'', ''september'', ''october'', ''november'', ''december'']"

text \<open>The alternatives of a list of names are ordered by decreasing length (a stable sort).\<close>

definition by_length :: "string list \<Rightarrow> string list" where
  "by_length names = sort_key (\<lambda>n. - int (length n)) names"

text \<open>
  The matches of one directive at the start of a string, as pairs of the matched text and
  the rest, in order of preference:
  \<^verbatim>\<open>%d\<close> is \<^verbatim>\<open>3[0-1]|[1-2]\d|0[1-9]|[1-9]| [1-9]\<close>, \<^verbatim>\<open>%m\<close> is \<^verbatim>\<open>1[0-2]|0[1-9]|[1-9]\<close>,
  \<^verbatim>\<open>%Y\<close> is \<^verbatim>\<open>\d\d\d\d\<close>, and \<^verbatim>\<open>\s+\<close> is greedy.
\<close>

fun alternatives :: "directive \<Rightarrow> string \<Rightarrow> (string \<times> string) list" where
  "alternatives Dir_d s =
     chars_of [''3'', ''01''] s @ chars_of [''12'', digit_chars] s
     @ chars_of [''0'', nonzero_digits] s @ chars_of [nonzero_digits] s
     @ chars_of ['' '', nonzero_digits] s"
| "alternatives Dir_m s =
     chars_of [''1'', ''012''] s @ chars_of [''0'', nonzero_digits] s
     @ chars_of [nonzero_digits] s"
| "alternatives Dir_Y s = chars_of [digit_chars, digit_chars, digit_chars, digit_chars] s"
| "alternatives Dir_b s = concat (map (\<lambda>w. word_of w s) (by_length abbr_months))"
| "alternatives Dir_B s = concat (map (\<lambda>w. word_of w s) (by_length full_months))"
| "alternatives (Lit c) s = word_of [c] s"
| "alternatives Spaces s =
     map (\<lambda>k. (take k s, drop k s)) (rev [1 ..< Suc (length (takeWhile is_space s))])"
| "alternatives Unsupported s = []"

text \<open>
  The matches of a whole format: the groups found, and the unmatched rest of the string.
\<close>

fun match_format :: "directive list \<Rightarrow> string \<Rightarrow> ((directive \<times> string) list \<times> string) list" where
  "match_format [] s = [([], s)]"
| "match_format (d # ds) s =
     concat (map (\<lambda>(txt, rest). map (\<lambda>(g, r). ((d, txt) # g, r)) (match_format ds rest))
                 (alternatives d s))"

definition digit_val :: "char \<Rightarrow> int" where
  "digit_val c =
     (case map_of (zip digit_chars [0, 1, 2, 3, 4, 5, 6, 7, 8, 9]) c of Some n \<Rightarrow> n | None \<Rightarrow> 0)"

text \<open>\<^verbatim>\<open>int(txt)\<close> for a group of digits, which may start with a space.\<close>

definition int_of_digits :: "string \<Rightarrow> int" where
  "int_of_digits txt = foldl (\<lambda>a c. 10 * a + digit_val c) 0 (filter is_digit txt)"

text \<open>The position of a name in the list of month names, counted from 1.\<close>

fun index_of :: "string \<Rightarrow> string list \<Rightarrow> int" where
  "index_of w [] = 1"
| "index_of w (n # ns) = (if w = n then 1 else 1 + index_of w ns)"

text \<open>The fields start from the defaults 1900-01-01, and each group sets its field.\<close>

fun set_field :: "directive \<times> string \<Rightarrow> int \<times> int \<times> int \<Rightarrow> int \<times> int \<times> int" where
  "set_field (Dir_Y, txt) (y, m, d) = (int_of_digits txt, m, d)"
| "set_field (Dir_m, txt) (y, m, d) = (y, int_of_digits txt, d)"
| "set_field (Dir_B, txt) (y, m, d) = (y, index_of (lower txt) full_months, d)"
| "set_field (Dir_b, txt) (y, m, d) = (y, index_of (lower txt) abbr_months, d)"
| "set_field (Dir_d, txt) (y, m, d) = (y, m, int_of_digits txt)"
| "set_field (_, txt) (y, m, d) = (y, m, d)"

definition midnight :: "int \<Rightarrow> int \<Rightarrow> int \<Rightarrow> datetime" where
  "midnight y m d = \<lparr>year = y, month = m, day = d, hour = 0, minute = 0, second = 0,
                     microsecond = 0\<rparr>"

text \<open>\<open>None\<close> is \<^verbatim>\<open>ValueError\<close>: no match, unconverted data, or no such day.\<close>

definition strptime :: "string \<Rightarrow> string \<Rightarrow> datetime option" where
  "strptime date_string fmt =
     (case match_format (compile_format fmt) date_string of
        [] \<Rightarrow> None
      | (groups, rest) # _ \<Rightarrow>
          if rest \<noteq> [] then None
          else (case fold set_field groups (1900, 1, 1) of
                  (y, m, d) \<Rightarrow> if valid_date y m d then Some (midnight y m d) else None))"

subsection \<open>\<^verbatim>\<open>strftime('%Y-%m-%d')\<close>\<close>

definition digit_char :: "int \<Rightarrow> char" where
  "digit_char n = digit_chars ! nat (n mod 10)"

text \<open>The last \<open>w\<close> decimal digits of a number: \<open>w\<close> digits, zero-padded.\<close>

fun zero_pad :: "nat \<Rightarrow> int \<Rightarrow> string" where
  "zero_pad 0 n = []"
| "zero_pad (Suc w) n = zero_pad w (n div 10) @ [digit_char n]"

text \<open>
  \<^verbatim>\<open>%Y\<close> is written by the C library: the decimal digits of the year with no padding, so a
  year below 1000 has fewer than four digits (CPython 3.11 with glibc; a \<^verbatim>\<open>datetime\<close> year is
  between 1 and 9999). \<^verbatim>\<open>%m\<close> and \<^verbatim>\<open>%d\<close> are written with two digits.
\<close>

definition year_text :: "int \<Rightarrow> string" where
  "year_text y =
     (if y < 10 then zero_pad 1 y else if y < 100 then zero_pad 2 y
      else if y < 1000 then zero_pad 3 y else zero_pad 4 y)"

definition strftime_ymd :: "datetime \<Rightarrow> string" where
  "strftime_ymd t = year_text (year t) @ ''-'' @ zero_pad 2 (month t) @ ''-'' @ zero_pad 2 (day t)"

subsection \<open>The step\<close>

definition date_formats :: "string list" where
  "date_formats = [''%m/%d/%Y'', ''%d-%m-%Y'', ''%Y-%m-%d'', ''%b %d, %Y'', ''%d %B %Y'']"

text \<open>
  The loop over the formats. A \<^verbatim>\<open>ValueError\<close> moves on to the next format; the first format
  that parses decides: a date after \<open>now\<close> gives the missing value at once.
\<close>

fun try_formats :: "datetime \<Rightarrow> string \<Rightarrow> string list \<Rightarrow> string option" where
  "try_formats now date_str [] = None"
| "try_formats now date_str (fmt # fmts) =
     (case strptime date_str fmt of
        None \<Rightarrow> try_formats now date_str fmts
      | Some parsed_date \<Rightarrow>
          if datetime_gt parsed_date now then None else Some (strftime_ymd parsed_date))"

definition parse_date :: "datetime \<Rightarrow> string option \<Rightarrow> string option" where
  "parse_date now v =
     (case v of None \<Rightarrow> None | Some date_str \<Rightarrow> try_formats now (strip date_str) date_formats)"

text \<open>
  \<^verbatim>\<open>datetime.now()\<close> is read while a row is parsed: \<open>clock i\<close> is the reading for the row at
  position \<open>i\<close>.
\<close>

definition standardize_dates :: "(nat \<Rightarrow> datetime) \<Rightarrow> cleaner \<Rightarrow> cleaner" where
  "standardize_dates clock c =
     (let valid_before = notna_sum (map order_date (df c));
          c1 = c\<lparr>df := map (\<lambda>(i, r). r\<lparr>order_date := parse_date (clock i) (order_date r)\<rparr>)
                            (enumerate 0 (df c))\<rparr>;
          valid_after = notna_sum (map order_date (df c1));
          invalid_count = valid_before - valid_after
      in if invalid_count > 0
         then log_change ''standardize_dates'' ''Invalid dates removed'' invalid_count c1
         else c1)"

section \<open>Floats\<close>

subsection \<open>Rounding to binary64\<close>

text \<open>The number of binary digits of a positive integer.\<close>

function bitlen :: "int \<Rightarrow> int" where
  "bitlen n = (if n \<le> 0 then 0 else 1 + bitlen (n div 2))"
  by pat_completeness auto
termination
  by (relation "measure nat") auto

declare bitlen.simps [simp del]

definition pow2 :: "int \<Rightarrow> rat" where
  "pow2 e = (if 0 \<le> e then of_int (2 ^ nat e) else 1 / of_int (2 ^ nat (- e)))"

text \<open>For \<open>q > 0\<close>, the exponent \<open>e\<close> with \<open>2 ^ e \<le> q < 2 ^ (e + 1)\<close>.\<close>

definition ilog2 :: "rat \<Rightarrow> int" where
  "ilog2 q =
     (case quotient_of q of
        (a, b) \<Rightarrow>
          (let e0 = bitlen a - bitlen b
           in if pow2 e0 \<le> q then e0 else e0 - 1))"

text \<open>Rounding to the nearest integer, a tie going to the even one.\<close>

definition round_half_even :: "rat \<Rightarrow> int" where
  "round_half_even q =
     (let f = \<lfloor>q\<rfloor>; r = q - of_int f
      in if r < 1 / 2 then f else if 1 / 2 < r then f + 1 else if even f then f else f + 1)"

text \<open>
  The binary64 value nearest to a rational, a tie going to the even significand: 53
  significant bits, the smallest unit being \<open>2 ^ - 1074\<close>; at \<open>2 ^ 1024\<close> the result is
  infinite.
\<close>

definition b64 :: "rat \<Rightarrow> pyfloat" where
  "b64 q =
     (if q = 0 then Fin 0
      else (let u = pow2 (max (ilog2 \<bar>q\<bar> - 52) (- 1074));
                r = of_int (round_half_even (q / u)) * u
            in if of_int (2 ^ 1024) \<le> r then PInf
               else if r \<le> - of_int (2 ^ 1024) then NInf else Fin r))"

subsection \<open>\<^verbatim>\<open>float(s)\<close>\<close>

text \<open>\<^verbatim>\<open>digitpart\<close> of the grammar: digits, with single underscores between digits.\<close>

fun digitpart :: "string \<Rightarrow> bool" where
  "digitpart [] = False"
| "digitpart [c] = is_digit c"
| "digitpart (c # d # r) =
     (is_digit c \<and> (if d = CHR ''_'' then digitpart r else digitpart (d # r)))"

definition pow10 :: "int \<Rightarrow> rat" where
  "pow10 e = (if 0 \<le> e then of_int (10 ^ nat e) else 1 / of_int (10 ^ nat (- e)))"

text \<open>The part before the first character of a set, and the part after it, if there is one.\<close>

definition split_at :: "char list \<Rightarrow> string \<Rightarrow> string \<times> string option" where
  "split_at seps s =
     (let a = takeWhile (\<lambda>c. c \<notin> set seps) s; b = dropWhile (\<lambda>c. c \<notin> set seps) s
      in (a, if b = [] then None else Some (tl b)))"

text \<open>\<^verbatim>\<open>number ::= [digitpart] "." digitpart | digitpart ["."]\<close>, with its value.\<close>

definition parse_mantissa :: "string \<Rightarrow> rat option" where
  "parse_mantissa s =
     (case split_at ''.'' s of
        (ip, None) \<Rightarrow> if digitpart ip then Some (of_int (int_of_digits ip)) else None
      | (ip, Some fp) \<Rightarrow>
          if (ip = [] \<or> digitpart ip) \<and> (fp = [] \<or> digitpart fp) \<and> \<not> (ip = [] \<and> fp = [])
          then Some (of_int (int_of_digits ip)
                     + of_int (int_of_digits fp) * pow10 (- int (length (filter is_digit fp))))
          else None)"

text \<open>\<^verbatim>\<open>exponent ::= ("e" | "E") [sign] digitpart\<close>, after the letter.\<close>

definition parse_exponent :: "string \<Rightarrow> int option" where
  "parse_exponent s =
     (case s of
        [] \<Rightarrow> None
      | c # r \<Rightarrow>
          if c = CHR ''-'' then (if digitpart r then Some (- int_of_digits r) else None)
          else if c = CHR ''+'' then (if digitpart r then Some (int_of_digits r) else None)
          else if digitpart s then Some (int_of_digits s) else None)"

text \<open>\<^verbatim>\<open>floatnumber ::= number [exponent]\<close>, as the exact decimal value.\<close>

definition parse_floatnumber :: "string \<Rightarrow> rat option" where
  "parse_floatnumber s =
     (case split_at ''eE'' s of
        (m, None) \<Rightarrow> parse_mantissa m
      | (m, Some e) \<Rightarrow>
          (case parse_mantissa m of
             None \<Rightarrow> None
           | Some q \<Rightarrow> (case parse_exponent e of None \<Rightarrow> None | Some k \<Rightarrow> Some (q * pow10 k))))"

text \<open>
  The whitespace that \<^verbatim>\<open>float\<close> ignores around a number: space, tab, newline, vertical
  tab, form feed and carriage return, fewer characters than \<^verbatim>\<open>str.strip\<close> removes.
\<close>

definition float_space :: "char \<Rightarrow> bool" where
  "float_space c = (c \<in> set [CHR 0x09, CHR 0x0A, CHR 0x0B, CHR 0x0C, CHR 0x0D, CHR '' ''])"

definition float_strip :: "string \<Rightarrow> string" where
  "float_strip s = rev (dropWhile float_space (rev (dropWhile float_space s)))"

text \<open>
  \<^verbatim>\<open>float(s)\<close>: surrounding whitespace is ignored, then a sign, then \<^verbatim>\<open>inf\<close>, \<^verbatim>\<open>infinity\<close> or
  \<^verbatim>\<open>nan\<close> in any case, or a decimal number, which is rounded correctly. \<open>None\<close> is
  \<^verbatim>\<open>ValueError\<close>.
\<close>

definition py_float :: "string \<Rightarrow> pyfloat option" where
  "py_float str =
     (let s = float_strip str;
          neg = (take 1 s = ''-'');
          body = (if take 1 s = ''-'' \<or> take 1 s = ''+'' then drop 1 s else s)
      in if lower body = ''inf'' \<or> lower body = ''infinity'' then Some (if neg then NInf else PInf)
         else if lower body = ''nan'' then Some NaN
         else (case parse_floatnumber body of
                 None \<Rightarrow> None
               | Some q \<Rightarrow> Some (b64 (if neg then - q else q))))"

text \<open>
  \<^verbatim>\<open>float(f(str(v)))\<close> for a cell \<open>v\<close>, where \<open>f\<close> only removes whitespace, dollar signs and
  commas. For a number, \<^verbatim>\<open>str\<close> gives its \<^verbatim>\<open>repr\<close>, which has none of these characters and
  which \<^verbatim>\<open>float\<close> reads back as the same number.
\<close>

definition float_of_str :: "(string \<Rightarrow> string) \<Rightarrow> cell \<Rightarrow> pyfloat option" where
  "float_of_str f v = (case v of Text s \<Rightarrow> py_float (f s) | Num x \<Rightarrow> Some x)"

text \<open>\<^verbatim>\<open>x <= 0\<close>\<close>

fun float_le_zero :: "pyfloat \<Rightarrow> bool" where
  "float_le_zero (Fin q) = (q \<le> 0)"
| "float_le_zero NInf = True"
| "float_le_zero PInf = False"
| "float_le_zero NaN = False"

text \<open>
  \<^verbatim>\<open>round(x, 2)\<close>: infinities and NaN round to themselves; a finite value is rounded to two
  decimals, a tie going to the even digit, and the result is the float nearest to that.
\<close>

fun round2 :: "pyfloat \<Rightarrow> pyfloat" where
  "round2 (Fin q) = b64 (of_int (round_half_even (q * 100)) / 100)"
| "round2 x = x"

section \<open>Step 6: prices\<close>

text \<open>\<^verbatim>\<open>s.replace(x, '')\<close> for a single character \<open>x\<close>.\<close>

definition remove_char :: "char \<Rightarrow> string \<Rightarrow> string" where
  "remove_char x s = filter (\<lambda>c. c \<noteq> x) s"

definition price_str :: "string \<Rightarrow> string" where
  "price_str s = remove_char CHR '','' (remove_char CHR ''$'' (strip s))"

definition parse_price :: "cell \<Rightarrow> cell" where
  "parse_price v =
     (if isna v then Num NaN
      else (case float_of_str price_str v of
              None \<Rightarrow> Num NaN
            | Some price_float \<Rightarrow>
                if float_le_zero price_float then Num NaN else Num (round2 price_float)))"

definition notna_cells :: "cell list \<Rightarrow> int" where
  "notna_cells col = int (length (filter (\<lambda>v. \<not> isna v) col))"

definition clean_prices :: "cleaner \<Rightarrow> cleaner" where
  "clean_prices c =
     (let valid_before = notna_cells (map price (df c));
          c1 = c\<lparr>df := map (\<lambda>r. r\<lparr>price := parse_price (price r)\<rparr>) (df c)\<rparr>;
          valid_after = notna_cells (map price (df c1));
          invalid_count = valid_before - valid_after
      in if invalid_count > 0
         then log_change ''clean_prices'' ''Invalid prices removed'' invalid_count c1
         else c1)"

section \<open>Step 7: quantities\<close>

datatype pyerror = OverflowError

text \<open>
  \<^verbatim>\<open>int(x)\<close> of a float truncates towards zero; it raises \<^verbatim>\<open>ValueError\<close> for NaN, which the
  caller catches, and \<^verbatim>\<open>OverflowError\<close> for an infinity, which nothing catches.
\<close>

definition truncate :: "rat \<Rightarrow> int" where
  "truncate q = (if 0 \<le> q then \<lfloor>q\<rfloor> else \<lceil>q\<rceil>)"

definition parse_quantity :: "cell \<Rightarrow> pyerror + cell" where
  "parse_quantity qty =
     (if isna qty then Inr (Num NaN)
      else (case float_of_str strip qty of
              None \<Rightarrow> Inr (Num NaN)
            | Some NaN \<Rightarrow> Inr (Num NaN)
            | Some PInf \<Rightarrow> Inl OverflowError
            | Some NInf \<Rightarrow> Inl OverflowError
            | Some (Fin q) \<Rightarrow>
                (let qty_int = truncate q
                 in if qty_int \<le> 0 then Inr (Num NaN) else Inr (Num (Fin (of_int qty_int))))))"

text \<open>\<^verbatim>\<open>Series.apply\<close> of a function that may raise: the first exception ends the call.\<close>

fun apply_raising :: "('a \<Rightarrow> 'e + 'b) \<Rightarrow> 'a list \<Rightarrow> 'e + 'b list" where
  "apply_raising f [] = Inr []"
| "apply_raising f (x # xs) =
     (case f x of
        Inl e \<Rightarrow> Inl e
      | Inr y \<Rightarrow> (case apply_raising f xs of Inl e \<Rightarrow> Inl e | Inr ys \<Rightarrow> Inr (y # ys)))"

definition clean_quantities :: "cleaner \<Rightarrow> pyerror + cleaner" where
  "clean_quantities c =
     (let valid_before = notna_cells (map quantity (df c))
      in case apply_raising parse_quantity (map quantity (df c)) of
           Inl e \<Rightarrow> Inl e
         | Inr col \<Rightarrow>
             (let c1 = c\<lparr>df := map (\<lambda>(r, v). r\<lparr>quantity := v\<rparr>) (zip (df c) col)\<rparr>;
                  valid_after = notna_cells (map quantity (df c1));
                  invalid_count = valid_before - valid_after
              in Inr (if invalid_count > 0
                      then log_change ''clean_quantities'' ''Invalid quantities removed''
                             invalid_count c1
                      else c1)))"

section \<open>Steps 8 and 9: categories and status\<close>

definition category_mapping :: "(string \<times> string) list" where
  "category_mapping =
     [(''electronics'', ''Electronics''), (''ELECTRONICS'', ''Electronics''),
      (''elec'', ''Electronics''), (''Elec'', ''Electronics''),
      (''clothing'', ''Clothing''), (''CLOTHING'', ''Clothing''),
      (''clot'', ''Clothing''), (''Clot'', ''Clothing''),
      (''home & garden'', ''Home & Garden''), (''HOME & GARDEN'', ''Home & Garden''),
      (''home and garden'', ''Home & Garden''), (''Home and Garden'', ''Home & Garden''),
      (''home'', ''Home & Garden''), (''Home'', ''Home & Garden''),
      (''books'', ''Books''), (''BOOKS'', ''Books''),
      (''book'', ''Books''), (''Book'', ''Books'')]"

definition status_mapping :: "(string \<times> string) list" where
  "status_mapping =
     [(''pending'', ''Pending''), (''PENDING'', ''Pending''), (''pnding'', ''Pending''),
      (''Pnding'', ''Pending''), (''p'', ''Pending''), (''P'', ''Pending''),
      (''shipped'', ''Shipped''), (''SHIPPED'', ''Shipped''), (''shippd'', ''Shipped''),
      (''Shippd'', ''Shipped''), (''ship'', ''Shipped''), (''Ship'', ''Shipped''),
      (''delivered'', ''Delivered''), (''DELIVERED'', ''Delivered''),
      (''deliverd'', ''Delivered''), (''Deliverd'', ''Delivered''),
      (''complete'', ''Delivered''), (''Complete'', ''Delivered''),
      (''COMPLETE'', ''Delivered''),
      (''cancelled'', ''Cancelled''), (''CANCELLED'', ''Cancelled''),
      (''canceled'', ''Cancelled''), (''Canceled'', ''Cancelled''),
      (''cnclld'', ''Cancelled''), (''CNCLLD'', ''Cancelled'')]"

text \<open>
  \<^verbatim>\<open>Series.replace(mapping)\<close>: a value equal to a key becomes the key's value, any other
  value stays, and so does the missing value.
\<close>

definition replace_value :: "(string \<times> string) list \<Rightarrow> string option \<Rightarrow> string option" where
  "replace_value mapping v =
     (case v of
        None \<Rightarrow> None
      | Some s \<Rightarrow> (case map_of mapping s of None \<Rightarrow> Some s | Some t \<Rightarrow> Some t))"

text \<open>\<^verbatim>\<open>Series.nunique()\<close>: the number of distinct values, the missing value not counted.\<close>

definition nunique :: "string option list \<Rightarrow> int" where
  "nunique col = int (length (remdups (filter (\<lambda>v. v \<noteq> None) col)))"

definition standardize_categories :: "cleaner \<Rightarrow> cleaner" where
  "standardize_categories c =
     (let unique_before = nunique (map category (df c));
          t1 = map (\<lambda>r. r\<lparr>category := replace_value category_mapping (category r)\<rparr>) (df c);
          t2 = map (\<lambda>r. r\<lparr>category := map_option title (category r)\<rparr>) t1;
          c2 = c\<lparr>df := t2\<rparr>;
          unique_after = nunique (map category (df c2));
          variations_removed = unique_before - unique_after
      in if variations_removed > 0
         then log_change ''standardize_categories'' ''Category variations consolidated''
                variations_removed c2
         else c2)"

definition standardize_status :: "cleaner \<Rightarrow> cleaner" where
  "standardize_status c =
     (let unique_before = nunique (map status (df c));
          c1 = c\<lparr>df := map (\<lambda>r. r\<lparr>status := replace_value status_mapping (status r)\<rparr>) (df c)\<rparr>;
          unique_after = nunique (map status (df c1));
          variations_removed = unique_before - unique_after
      in if variations_removed > 0
         then log_change ''standardize_status'' ''Status variations consolidated''
                variations_removed c1
         else c1)"

definition canonical_categories :: "string list" where
  "canonical_categories = [''Electronics'', ''Clothing'', ''Home & Garden'', ''Books'']"

section \<open>The pipeline\<close>

text \<open>
  A new cleaner has an empty log. \<^verbatim>\<open>load_data\<close> stores the table read from the input file
  and a copy of it.
\<close>

definition new_cleaner :: cleaner where
  "new_cleaner = \<lparr>df = [], original_df = [], cleaning_log = []\<rparr>"

definition load_data :: "row list \<Rightarrow> cleaner \<Rightarrow> cleaner" where
  "load_data t c = c\<lparr>df := t, original_df := t\<rparr>"

definition run_cleaning_pipeline ::
  "pandas \<Rightarrow> (nat \<Rightarrow> datetime) \<Rightarrow> row list \<Rightarrow> cleaner \<Rightarrow> pyerror + cleaner" where
  "run_cleaning_pipeline pd clock t c =
     (let c = load_data t c;
          c = remove_duplicates c;
          c = clean_whitespace pd c;
          c = standardize_emails c;
          c = clean_phone_numbers c;
          c = standardize_dates clock c;
          c = clean_prices c
      in case clean_quantities c of
           Inl e \<Rightarrow> Inl e
         | Inr c \<Rightarrow> Inr (standardize_status (standardize_categories c)))"

section \<open>Sample data\<close>

definition sample_now :: datetime where
  "sample_now = \<lparr>year = 2025, month = 6, day = 1, hour = 12, minute = 30, second = 0,
                  microsecond = 0\<rparr>"

definition sample_row :: row where
  "sample_row =
     \<lparr>order_id = Some ''ORD1001'', customer_name = Some ''John Smith'',
      email = Some ''john.smith@example.com'', phone = Some ''555-123-4567'',
      order_date = Some ''2024-01-15'', product_name = Some ''Jeans'',
      category = Some ''Clothing'', quantity = Num (Fin 2), price = Num (Fin 20),
      status = Some ''Shipped''\<rparr>"

section \<open>Shapes of cleaned values\<close>

text \<open>
  A text in which every whitespace character is a single space that is followed by a
  character that is not whitespace (or by nothing).
\<close>

fun single_spaced :: "string \<Rightarrow> bool" where
  "single_spaced [] = True"
| "single_spaced (c # cs) =
     ((if is_space c then c = CHR '' '' \<and> (cs = [] \<or> \<not> is_space (hd cs)) else True)
      \<and> single_spaced cs)"

text \<open>A text that does not start and does not end with whitespace.\<close>

definition trimmed :: "string \<Rightarrow> bool" where
  "trimmed s = (s = [] \<or> (\<not> is_space (hd s) \<and> \<not> is_space (last s)))"

section \<open>Phone numbers: properties\<close>

lemma format_phone_digits:
  "format_phone (Some s) =
     (if length (phone_digits s) = 10 then Some (dashed (phone_digits s)) else None)"
proof -
  have h: "(take (Suc 0) d = ''1'') = (hd d = CHR ''1'')" if "length d = 11" for d :: string
    using that by (cases d) auto
  have t: "drop (Suc 0) d = tl d" for d :: string
    by (simp add: drop_Suc)
  show ?thesis
    by (simp add: format_phone_def phone_digits_def dashed_def Let_def h t)
qed

lemma dashed_shape:
  assumes "length d = 10" "list_all is_digit d"
  shows "phone_shape (dashed d)"
proof -
  obtain a b c e f g h i j k where d: "d = [a, b, c, e, f, g, h, i, j, k]"
    using assms(1) by (auto simp: length_Suc_conv eval_nat_numeral)
  show ?thesis using assms(2) by (simp add: d dashed_def phone_shape_def)
qed

lemma phone_digits_all: "list_all is_digit (phone_digits s)"
proof -
  have "list_all is_digit (filter is_digit s)" by (simp add: list_all_iff)
  moreover have "list_all is_digit (tl d)" if "list_all is_digit d" for d
    using that by (cases d) auto
  ultimately show ?thesis by (simp add: phone_digits_def Let_def)
qed

lemma notna_diff:
  assumes "f None = None"
  shows "notna_sum (map g t) - notna_sum (map (f \<circ> g) t) =
         int (length (filter (\<lambda>r. g r \<noteq> None \<and> f (g r) = None) t))"
proof (induction t)
  case Nil
  show ?case by (simp add: notna_sum_def)
next
  case (Cons r t)
  show ?case using Cons assms
    by (cases "g r") (auto simp: notna_sum_def)
qed

lemma clean_phone_numbers_log:
  "cleaning_log (clean_phone_numbers c) =
     (let n = int (length (filter (\<lambda>r. phone r \<noteq> None \<and> format_phone (phone r) = None) (df c)))
      in if n > 0
         then cleaning_log c @ [\<lparr>step = ''clean_phone_numbers'',
                description = ''Invalid phone numbers removed'', count = n\<rparr>]
         else cleaning_log c)"
proof -
  have a: "format_phone None = None"
    by (simp add: format_phone_def)
  have m: "map phone (map (\<lambda>r. r\<lparr>phone := format_phone (phone r)\<rparr>) (df c))
           = map (format_phone \<circ> phone) (df c)"
    by simp
  show ?thesis
    unfolding clean_phone_numbers_def Let_def
    by (simp add: m notna_diff[of format_phone phone, OF a] log_change_def del: map_map)
qed

text \<open>
  C5. \<^verbatim>\<open>clean_phone_numbers\<close> leaves a missing phone missing and maps a present one by
  keeping its decimal digits, dropping a leading 1 of exactly eleven digits, and writing
  exactly ten digits as \<^verbatim>\<open>DDD-DDD-DDDD\<close>; any other digit count gives a missing value. The
  step rewrites the phone column of every row this way, and it logs the number of rows whose
  phone was present before and is missing after, when that number is positive.
\<close>

theorem clean_phone_numbers_spec:
  "format_phone None = None
   \<and> format_phone (Some s) =
       (if length (phone_digits s) = 10 then Some (dashed (phone_digits s)) else None)
   \<and> phone_digits s =
       (if length (filter is_digit s) = 11 \<and> hd (filter is_digit s) = CHR ''1''
        then tl (filter is_digit s) else filter is_digit s)
   \<and> (\<forall>p. format_phone (Some s) = Some p \<longrightarrow> phone_shape p)
   \<and> format_phone (Some ''(555) 123-4567'') = Some ''555-123-4567''
   \<and> map phone (df (clean_phone_numbers c)) = map (format_phone \<circ> phone) (df c)
   \<and> cleaning_log (clean_phone_numbers c) =
       (let n = int (length (filter (\<lambda>r. phone r \<noteq> None \<and> format_phone (phone r) = None) (df c)))
        in if n > 0
           then cleaning_log c @ [\<lparr>step = ''clean_phone_numbers'',
                  description = ''Invalid phone numbers removed'', count = n\<rparr>]
           else cleaning_log c)"
proof -
  have 1: "format_phone None = None" by (simp add: format_phone_def)
  have 4: "\<forall>p. format_phone (Some s) = Some p \<longrightarrow> phone_shape p"
    using dashed_shape[OF _ phone_digits_all, of s]
    by (auto simp: format_phone_digits split: if_splits)
  have 5: "format_phone (Some ''(555) 123-4567'') = Some ''555-123-4567''"
    by (simp add: format_phone_def is_digit_def)
  have 6: "map phone (df (clean_phone_numbers c)) = map (format_phone \<circ> phone) (df c)"
    by (simp add: clean_phone_numbers_def Let_def log_change_def)
  show ?thesis
    using 1 format_phone_digits[of s] 4 5 6 clean_phone_numbers_log[of c]
    by (simp only: phone_digits_def Let_def simp_thms)
qed

theorem clean_phone_numbers_spec_witness:
  "format_phone (Some ''+1-555-123-4567'') = Some ''555-123-4567''
   \<and> phone_shape ''555-123-4567''"
proof -
  have e: "format_phone (Some ''+1-555-123-4567'') = Some ''555-123-4567''"
    by (simp add: format_phone_def is_digit_def)
  from clean_phone_numbers_spec[of "''+1-555-123-4567''" "\<lparr>df = [], original_df = [], cleaning_log = []\<rparr>"]
  have "\<forall>p. format_phone (Some ''+1-555-123-4567'') = Some p \<longrightarrow> phone_shape p"
    by (elim conjE)
  with e show ?thesis by blast
qed

section \<open>Regular expressions: the matcher decides the language\<close>

lemma nullable_lang: "nullable r \<longleftrightarrow> [] \<in> lang r"
proof (induction r)
  case (Star r) show ?case by (simp add: star.star_nil)
qed auto

lemma star_cons: "x # s \<in> star A \<longleftrightarrow> (\<exists>u v. s = u @ v \<and> x # u \<in> A \<and> v \<in> star A)"
proof
  assume "x # s \<in> star A"
  then show "\<exists>u v. s = u @ v \<and> x # u \<in> A \<and> v \<in> star A"
  proof (induction "x # s" rule: star.induct)
    case (star_app u v)
    then show ?case by (cases u) auto
  qed
next
  assume "\<exists>u v. s = u @ v \<and> x # u \<in> A \<and> v \<in> star A"
  then obtain u v where "s = u @ v" "x # u \<in> A" "v \<in> star A" by blast
  then show "x # s \<in> star A" using star.star_app[of "x # u" A v] by simp
qed

lemma deriv_lang: "s \<in> lang (deriv x r) \<longleftrightarrow> x # s \<in> lang r"
proof (induction r arbitrary: s)
  case (Seq a b)
  show ?case
  proof
    assume "s \<in> lang (deriv x (Seq a b))"
    then consider (l) u v where "s = u @ v" "u \<in> lang (deriv x a)" "v \<in> lang b"
      | (r) "nullable a" "s \<in> lang (deriv x b)"
      by (auto split: if_splits)
    then show "x # s \<in> lang (Seq a b)"
    proof cases
      case l
      then have "x # s = (x # u) @ v" "x # u \<in> lang a" using Seq by auto
      with l(3) show ?thesis unfolding lang.simps by blast
    next
      case r
      then have "x # s = [] @ (x # s)" "[] \<in> lang a" "x # s \<in> lang b"
        using Seq nullable_lang[of a] by auto
      then show ?thesis unfolding lang.simps by blast
    qed
  next
    assume "x # s \<in> lang (Seq a b)"
    then obtain u v where uv: "x # s = u @ v" "u \<in> lang a" "v \<in> lang b" by auto
    show "s \<in> lang (deriv x (Seq a b))"
    proof (cases u)
      case Nil
      with uv Seq nullable_lang[of a] show ?thesis by auto
    next
      case (Cons y u')
      with uv Seq show ?thesis by auto
    qed
  qed
next
  case (Star a)
  show ?case using Star by (auto simp: star_cons)
qed auto

lemma fullmatch_lang: "fullmatch r s \<longleftrightarrow> s \<in> lang r"
  by (induction s arbitrary: r) (auto simp: nullable_lang deriv_lang)

lemma star_cls: "s \<in> star {[x] | x. x \<in> set cs} \<longleftrightarrow> set s \<subseteq> set cs"
proof
  assume "s \<in> star {[x] | x. x \<in> set cs}"
  then show "set s \<subseteq> set cs" by (induction rule: star.induct) auto
next
  assume "set s \<subseteq> set cs"
  then show "s \<in> star {[x] | x. x \<in> set cs}"
  proof (induction s)
    case Nil show ?case by (rule star.star_nil)
  next
    case (Cons x s)
    then have "[x] \<in> {[x] | x. x \<in> set cs}" "s \<in> star {[x] | x. x \<in> set cs}" by auto
    then show ?case using star.star_app[of "[x]" "{[x] | x. x \<in> set cs}" s] by simp
  qed
qed

lemma lang_plus_cls: "s \<in> lang (rx_plus (Cls cs)) \<longleftrightarrow> s \<noteq> [] \<and> set s \<subseteq> set cs"
proof
  assume "s \<in> lang (rx_plus (Cls cs))"
  then show "s \<noteq> [] \<and> set s \<subseteq> set cs" by (auto simp: rx_plus_def star_cls)
next
  assume a: "s \<noteq> [] \<and> set s \<subseteq> set cs"
  then obtain x t where "s = [x] @ t" "x \<in> set cs" "set t \<subseteq> set cs" by (cases s) auto
  then show "s \<in> lang (rx_plus (Cls cs))"
    unfolding rx_plus_def lang.simps star_cls by blast
qed

lemma lang_two_cls:
  "s \<in> lang (Seq (Cls cs) (Seq (Cls cs) (Star (Cls cs)))) \<longleftrightarrow> 2 \<le> length s \<and> set s \<subseteq> set cs"
proof
  assume "s \<in> lang (Seq (Cls cs) (Seq (Cls cs) (Star (Cls cs))))"
  then show "2 \<le> length s \<and> set s \<subseteq> set cs" by (auto simp: star_cls)
next
  assume a: "2 \<le> length s \<and> set s \<subseteq> set cs"
  then obtain x y t where "s = [x] @ [y] @ t" "x \<in> set cs" "y \<in> set cs" "set t \<subseteq> set cs"
    by (cases s; cases "tl s") auto
  then show "s \<in> lang (Seq (Cls cs) (Seq (Cls cs) (Star (Cls cs))))"
    unfolding lang.simps star_cls by blast
qed

lemma seq_iff: "s \<in> lang (Seq a b) \<longleftrightarrow> (\<exists>u v. s = u @ v \<and> u \<in> lang a \<and> v \<in> lang b)"
  by auto

lemma seq5_iff:
  "s \<in> lang (Seq A (Seq B (Seq C (Seq D E)))) \<longleftrightarrow>
   (\<exists>l a d p t. s = l @ a @ d @ p @ t \<and> l \<in> lang A \<and> a \<in> lang B \<and> d \<in> lang C
      \<and> p \<in> lang D \<and> t \<in> lang E)"
  unfolding seq_iff by blast

lemma lang_email_pattern: "s \<in> lang email_pattern \<longleftrightarrow> email_shape s"
proof -
  have a: "a \<in> lang (Cls [x]) \<longleftrightarrow> a = [x]" for a x by auto
  show ?thesis
    unfolding email_pattern_def seq5_iff lang_plus_cls lang_two_cls a email_shape_def
    by auto
qed

section \<open>Duplicates and the number of rows\<close>

lemma dd_cons:
  "map fst (filter (\<lambda>(r, d). \<not> d) (zip (x # xs) (duplicated seen (x # xs)))) =
   (if x \<in> set seen then [] else [x])
   @ map fst (filter (\<lambda>(r, d). \<not> d) (zip xs (duplicated (x # seen) xs)))"
  by simp

lemma dd_snoc:
  "map fst (filter (\<lambda>(r, d). \<not> d) (zip (xs @ [x]) (duplicated seen (xs @ [x])))) =
   map fst (filter (\<lambda>(r, d). \<not> d) (zip xs (duplicated seen xs)))
   @ (if x \<in> set seen \<union> set xs then [] else [x])"
  by (induction xs arbitrary: seen) auto

lemma dd_set:
  "set (map fst (filter (\<lambda>(r, d). \<not> d) (zip xs (duplicated seen xs)))) = set xs - set seen"
  by (induction xs arbitrary: seen) auto

lemma dd_distinct:
  "distinct (map fst (filter (\<lambda>(r, d). \<not> d) (zip xs (duplicated seen xs))))"
proof (induction xs arbitrary: seen)
  case Nil
  show ?case by simp
next
  case (Cons x xs)
  define D where "D = map fst (filter (\<lambda>(r, d). \<not> d) (zip xs (duplicated (x # seen) xs)))"
  have "distinct D" unfolding D_def by (rule Cons)
  moreover have "x \<notin> set D" unfolding D_def dd_set by simp
  ultimately have "distinct ((if x \<in> set seen then [] else [x]) @ D)" by simp
  then show ?case unfolding dd_cons D_def .
qed

lemma drop_duplicates_snoc:
  "drop_duplicates (xs @ [x]) =
     (if x \<in> set xs then drop_duplicates xs else drop_duplicates xs @ [x])"
  unfolding drop_duplicates_def dd_snoc by simp

lemma drop_duplicates_Nil: "drop_duplicates [] = []"
  by (simp add: drop_duplicates_def)

lemma drop_duplicates_set: "set (drop_duplicates xs) = set xs"
  unfolding drop_duplicates_def dd_set by simp

lemma drop_duplicates_distinct: "distinct (drop_duplicates xs)"
  unfolding drop_duplicates_def by (rule dd_distinct)

lemma drop_duplicates_length: "length (drop_duplicates xs) \<le> length xs"
  by (induction xs rule: rev_induct) (auto simp: drop_duplicates_snoc drop_duplicates_Nil)

lemma drop_duplicates_id: "distinct xs \<Longrightarrow> drop_duplicates xs = xs"
  by (induction xs rule: rev_induct) (auto simp: drop_duplicates_snoc drop_duplicates_Nil)

lemma remove_duplicates_df: "df (remove_duplicates c) = drop_duplicates (df c)"
  by (simp add: remove_duplicates_def Let_def log_change_def)

lemma remove_duplicates_log:
  "cleaning_log (remove_duplicates c) =
     (let n = int (length (df c)) - int (length (drop_duplicates (df c)))
      in if n > 0
         then cleaning_log c @ [\<lparr>step = ''remove_duplicates'',
                description = ''Duplicate rows removed'', count = n\<rparr>]
         else cleaning_log c)"
  by (simp add: remove_duplicates_def Let_def log_change_def)

lemma remove_duplicates_orig: "original_df (remove_duplicates c) = original_df c"
  by (simp add: remove_duplicates_def Let_def log_change_def)

lemma clean_column_length: "length (fst (clean_column pd col st)) = length (fst st)"
  by (simp add: clean_column_def Let_def)

lemma clean_whitespace_length: "length (df (clean_whitespace pd c)) = length (df c)"
  by (simp add: clean_whitespace_def Let_def log_change_def text_columns_def clean_column_length)

lemma clean_whitespace_orig: "original_df (clean_whitespace pd c) = original_df c"
  by (simp add: clean_whitespace_def Let_def log_change_def)

lemma standardize_emails_length: "length (df (standardize_emails c)) = length (df c)"
  by (simp add: standardize_emails_def Let_def log_change_def)

lemma standardize_emails_orig: "original_df (standardize_emails c) = original_df c"
  by (simp add: standardize_emails_def Let_def log_change_def)

lemma clean_phone_numbers_length: "length (df (clean_phone_numbers c)) = length (df c)"
  by (simp add: clean_phone_numbers_def Let_def log_change_def)

lemma clean_phone_numbers_orig: "original_df (clean_phone_numbers c) = original_df c"
  by (simp add: clean_phone_numbers_def Let_def log_change_def)

lemma standardize_dates_length: "length (df (standardize_dates clock c)) = length (df c)"
  by (simp add: standardize_dates_def Let_def log_change_def)

lemma standardize_dates_orig: "original_df (standardize_dates clock c) = original_df c"
  by (simp add: standardize_dates_def Let_def log_change_def)

lemma clean_prices_length: "length (df (clean_prices c)) = length (df c)"
  by (simp add: clean_prices_def Let_def log_change_def)

lemma clean_prices_orig: "original_df (clean_prices c) = original_df c"
  by (simp add: clean_prices_def Let_def log_change_def)

lemma apply_raising_length: "apply_raising f xs = Inr ys \<Longrightarrow> length ys = length xs"
  by (induction xs arbitrary: ys) (auto split: sum.splits)

lemma clean_quantities_length:
  "clean_quantities c = Inr c' \<Longrightarrow> length (df c') = length (df c)"
  by (auto simp: clean_quantities_def Let_def log_change_def split: sum.splits if_splits
           dest: apply_raising_length)

lemma clean_quantities_orig:
  "clean_quantities c = Inr c' \<Longrightarrow> original_df c' = original_df c"
  by (auto simp: clean_quantities_def Let_def log_change_def split: sum.splits if_splits)

lemma standardize_categories_length: "length (df (standardize_categories c)) = length (df c)"
  by (simp add: standardize_categories_def Let_def log_change_def)

lemma standardize_categories_orig: "original_df (standardize_categories c) = original_df c"
  by (simp add: standardize_categories_def Let_def log_change_def)

lemma standardize_status_length: "length (df (standardize_status c)) = length (df c)"
  by (simp add: standardize_status_def Let_def log_change_def)

lemma standardize_status_orig: "original_df (standardize_status c) = original_df c"
  by (simp add: standardize_status_def Let_def log_change_def)

text \<open>The cleaner before the quantity step, which is the only step that can raise.\<close>

lemma pipeline_split:
  "run_cleaning_pipeline pd clock t c = Inr c' \<longleftrightarrow>
   (\<exists>c6. clean_quantities (clean_prices (standardize_dates clock (clean_phone_numbers
            (standardize_emails (clean_whitespace pd (remove_duplicates (load_data t c))))))) = Inr c6
         \<and> c' = standardize_status (standardize_categories c6))"
  by (auto simp: run_cleaning_pipeline_def Let_def split: sum.splits)

lemma pipeline_length:
  assumes "run_cleaning_pipeline pd clock t c = Inr c'"
  shows "length (df c') = length (drop_duplicates t)" and "original_df c' = t"
proof -
  from assms obtain c6 where
    q: "clean_quantities (clean_prices (standardize_dates clock (clean_phone_numbers
            (standardize_emails (clean_whitespace pd (remove_duplicates (load_data t c))))))) = Inr c6"
    and c': "c' = standardize_status (standardize_categories c6)"
    unfolding pipeline_split by blast
  show "length (df c') = length (drop_duplicates t)"
    using clean_quantities_length[OF q]
    by (simp add: c' standardize_status_length standardize_categories_length
        clean_prices_length standardize_dates_length clean_phone_numbers_length
        standardize_emails_length clean_whitespace_length remove_duplicates_df load_data_def)
  show "original_df c' = t"
    using clean_quantities_orig[OF q]
    by (simp add: c' standardize_status_orig standardize_categories_orig
        clean_prices_orig standardize_dates_orig clean_phone_numbers_orig
        standardize_emails_orig clean_whitespace_orig remove_duplicates_orig load_data_def)
qed

text \<open>
  C8. \<^verbatim>\<open>remove_duplicates\<close> deletes exactly the rows equal to an earlier row and keeps the
  first occurrences in their order: the last row of a table is deleted if and only if it
  occurs before, and the rows before it are treated as they are without it. The result has
  no two equal rows and the same set of rows. Two equal rows leave one, with a logged count
  of 1. Every other step keeps the number of rows, so the cleaned table of a run has as many
  rows as the table without its duplicates, and no more than the original table.
\<close>

theorem remove_duplicates_keeps_first:
  "drop_duplicates [] = []
   \<and> drop_duplicates (xs @ [x]) =
       (if x \<in> set xs then drop_duplicates xs else drop_duplicates xs @ [x])
   \<and> distinct (drop_duplicates xs) \<and> set (drop_duplicates xs) = set xs
   \<and> df (remove_duplicates c) = drop_duplicates (df c)
   \<and> cleaning_log (remove_duplicates c) =
       (let n = int (length (df c)) - int (length (drop_duplicates (df c)))
        in if n > 0
           then cleaning_log c @ [\<lparr>step = ''remove_duplicates'',
                  description = ''Duplicate rows removed'', count = n\<rparr>]
           else cleaning_log c)
   \<and> df (remove_duplicates (load_data [r, r] new_cleaner)) = [r]
   \<and> cleaning_log (remove_duplicates (load_data [r, r] new_cleaner)) =
       [\<lparr>step = ''remove_duplicates'', description = ''Duplicate rows removed'', count = 1\<rparr>]
   \<and> length (df (clean_whitespace pd c)) = length (df c)
   \<and> length (df (standardize_emails c)) = length (df c)
   \<and> length (df (clean_phone_numbers c)) = length (df c)
   \<and> length (df (standardize_dates clock c)) = length (df c)
   \<and> length (df (clean_prices c)) = length (df c)
   \<and> (\<forall>c'. clean_quantities c = Inr c' \<longrightarrow> length (df c') = length (df c))
   \<and> length (df (standardize_categories c)) = length (df c)
   \<and> length (df (standardize_status c)) = length (df c)
   \<and> (\<forall>c'. run_cleaning_pipeline pd clock t c = Inr c' \<longrightarrow>
          length (df c') = length (drop_duplicates t) \<and> original_df c' = t
          \<and> length (df c') \<le> length (original_df c'))"
proof -
  have two: "drop_duplicates [r, r] = [r]"
    by (simp add: drop_duplicates_def)
  have e1: "df (remove_duplicates (load_data [r, r] new_cleaner)) = [r]"
    by (simp add: remove_duplicates_df load_data_def two)
  have e2: "cleaning_log (remove_duplicates (load_data [r, r] new_cleaner)) =
       [\<lparr>step = ''remove_duplicates'', description = ''Duplicate rows removed'', count = 1\<rparr>]"
    by (simp add: remove_duplicates_log load_data_def two new_cleaner_def)
  have p: "\<forall>c'. run_cleaning_pipeline pd clock t c = Inr c' \<longrightarrow>
          length (df c') = length (drop_duplicates t) \<and> original_df c' = t
          \<and> length (df c') \<le> length (original_df c')"
    using pipeline_length[of pd clock t c] drop_duplicates_length[of t] by auto
  have q: "\<forall>c'. clean_quantities c = Inr c' \<longrightarrow> length (df c') = length (df c)"
    using clean_quantities_length by blast
  show ?thesis
    using drop_duplicates_Nil drop_duplicates_snoc[of xs x] drop_duplicates_distinct[of xs]
      drop_duplicates_set[of xs] remove_duplicates_df[of c] remove_duplicates_log[of c] e1 e2
      clean_whitespace_length[of pd c] standardize_emails_length[of c]
      clean_phone_numbers_length[of c] standardize_dates_length[of clock c]
      clean_prices_length[of c] q standardize_categories_length[of c]
      standardize_status_length[of c] p
    by (intro conjI)
qed

theorem remove_duplicates_keeps_first_witness:
  "\<exists>c'. run_cleaning_pipeline Before_3 (\<lambda>i. sample_now) [sample_row, sample_row] new_cleaner = Inr c'
        \<and> length (df c') = 1 \<and> original_df c' = [sample_row, sample_row]"
proof -
  have "\<not> isl (run_cleaning_pipeline Before_3 (\<lambda>i. sample_now) [sample_row, sample_row] new_cleaner)"
    by code_simp
  then obtain c' where
    r: "run_cleaning_pipeline Before_3 (\<lambda>i. sample_now) [sample_row, sample_row] new_cleaner = Inr c'"
    by (cases "run_cleaning_pipeline Before_3 (\<lambda>i. sample_now) [sample_row, sample_row] new_cleaner") auto
  have two: "drop_duplicates [sample_row, sample_row] = [sample_row]"
    by (simp add: drop_duplicates_def)
  from remove_duplicates_keeps_first[where xs = "[]" and x = sample_row and c = new_cleaner
      and r = sample_row and pd = Before_3 and clock = "\<lambda>i. sample_now"
      and t = "[sample_row, sample_row]"]
  have "\<forall>c'. run_cleaning_pipeline Before_3 (\<lambda>i. sample_now) [sample_row, sample_row] new_cleaner = Inr c' \<longrightarrow>
          length (df c') = length (drop_duplicates [sample_row, sample_row])
          \<and> original_df c' = [sample_row, sample_row]
          \<and> length (df c') \<le> length (original_df c')"
    by (elim conjE)
  with r two show ?thesis by auto
qed

section \<open>Categories\<close>

lemma category_mapping_canonical:
  "map_of category_mapping s = Some t \<Longrightarrow> t \<in> set canonical_categories"
  by (auto simp: category_mapping_def canonical_categories_def split: if_splits)

lemma title_canonical: "t \<in> set canonical_categories \<Longrightarrow> title t = t"
proof -
  have "title ''Electronics'' = ''Electronics''" "title ''Clothing'' = ''Clothing''"
    "title ''Home & Garden'' = ''Home & Garden''" "title ''Books'' = ''Books''"
    by code_simp+
  then show "t \<in> set canonical_categories \<Longrightarrow> title t = t"
    by (auto simp: canonical_categories_def)
qed

lemma standardize_categories_df:
  "df (standardize_categories c) =
     map (\<lambda>r. r\<lparr>category := map_option title (replace_value category_mapping (category r))\<rparr>) (df c)"
  by (simp add: standardize_categories_def Let_def log_change_def)

lemma standardize_categories_column:
  "map category (df (standardize_categories c)) =
     map (\<lambda>r. map_option title (replace_value category_mapping (category r))) (df c)"
  by (simp add: standardize_categories_df)

text \<open>
  C9. \<^verbatim>\<open>standardize_categories\<close> rewrites every category by the lookup table and then by
  \<^verbatim>\<open>title\<close>. A value that is a key of the table becomes the key's value, which is one of
  the four canonical names and which \<^verbatim>\<open>title\<close> leaves as it is; a value that is not a key
  becomes its \<^verbatim>\<open>title\<close> form; a missing value stays missing. So \<^verbatim>\<open>elec\<close> becomes
  \<^verbatim>\<open>Electronics\<close> and \<^verbatim>\<open>outdoor gear\<close>, which is not in the table, becomes
  \<^verbatim>\<open>Outdoor Gear\<close>.
\<close>

theorem standardize_categories_spec:
  "map category (df (standardize_categories c)) =
     map (\<lambda>r. map_option title (replace_value category_mapping (category r))) (df c)
   \<and> canonical_categories = [''Electronics'', ''Clothing'', ''Home & Garden'', ''Books'']
   \<and> (\<forall>t. map_of category_mapping s = Some t \<longrightarrow>
          t \<in> set canonical_categories
          \<and> map_option title (replace_value category_mapping (Some s)) = Some t)
   \<and> (map_of category_mapping s = None \<longrightarrow>
          map_option title (replace_value category_mapping (Some s)) = Some (title s))
   \<and> map_option title (replace_value category_mapping None) = None
   \<and> map_option title (replace_value category_mapping (Some ''elec'')) = Some ''Electronics''
   \<and> map_of category_mapping ''outdoor gear'' = None
   \<and> map_option title (replace_value category_mapping (Some ''outdoor gear''))
       = Some ''Outdoor Gear''"
proof -
  have 3: "\<forall>t. map_of category_mapping s = Some t \<longrightarrow>
          t \<in> set canonical_categories
          \<and> map_option title (replace_value category_mapping (Some s)) = Some t"
    using category_mapping_canonical[of s] title_canonical
    by (auto simp: replace_value_def)
  have 4: "map_of category_mapping s = None \<longrightarrow>
          map_option title (replace_value category_mapping (Some s)) = Some (title s)"
    by (simp add: replace_value_def)
  have 5: "map_option title (replace_value category_mapping None) = None"
    by (simp add: replace_value_def)
  have 6: "map_option title (replace_value category_mapping (Some ''elec'')) = Some ''Electronics''"
    by code_simp
  have 7: "map_of category_mapping ''outdoor gear'' = None"
    by code_simp
  have 8: "map_option title (replace_value category_mapping (Some ''outdoor gear''))
       = Some ''Outdoor Gear''"
    by code_simp
  show ?thesis
    using standardize_categories_column[of c] canonical_categories_def 3 4 5 6 7 8
    by (intro conjI)
qed

theorem standardize_categories_spec_witness:
  "map_of category_mapping ''Home and Garden'' = Some ''Home & Garden''
   \<and> ''Home & Garden'' \<in> set canonical_categories
   \<and> map_option title (replace_value category_mapping (Some ''Home and Garden''))
       = Some ''Home & Garden''
   \<and> map_of category_mapping ''toys'' = None
   \<and> map_option title (replace_value category_mapping (Some ''toys'')) = Some (title ''toys'')"
proof -
  have a: "map_of category_mapping ''Home and Garden'' = Some ''Home & Garden''"
    by code_simp
  have b: "map_of category_mapping ''toys'' = None"
    by code_simp
  from standardize_categories_spec[of new_cleaner "''Home and Garden''"] a
  have "''Home & Garden'' \<in> set canonical_categories
        \<and> map_option title (replace_value category_mapping (Some ''Home and Garden''))
            = Some ''Home & Garden''"
    by blast
  moreover from standardize_categories_spec[of new_cleaner "''toys''"] b
  have "map_option title (replace_value category_mapping (Some ''toys'')) = Some (title ''toys'')"
    by blast
  ultimately show ?thesis using a b by blast
qed

section \<open>Whitespace and emails: what the steps compute\<close>

lemma clean_whitespace_df:
  "df (clean_whitespace pd c) =
     map (\<lambda>r. r\<lparr>customer_name := clean_text pd (customer_name r),
                 email := clean_text pd (email r),
                 product_name := clean_text pd (product_name r),
                 category := clean_text pd (category r),
                 status := clean_text pd (status r)\<rparr>) (df c)"
  by (simp add: clean_whitespace_def Let_def log_change_def text_columns_def clean_column_def
      comp_def)

lemma clean_whitespace_column:
  "col \<in> set text_columns \<Longrightarrow>
   map (get_text col) (df (clean_whitespace pd c)) = map (\<lambda>r. clean_text pd (get_text col r)) (df c)"
  by (cases col) (simp_all add: clean_whitespace_df comp_def)

lemma clean_text_Some: "clean_text pd (Some s) = Some (tidy s)"
  by (simp add: clean_text_def astype_str_def)

lemma clean_text_before_3: "clean_text Before_3 v = Some (tidy (case v of None \<Rightarrow> ''nan'' | Some s \<Rightarrow> s))"
  by (cases v) (simp_all add: clean_text_def astype_str_def)

lemma clean_text_from_3: "clean_text From_3 v = map_option tidy v"
  by (cases v) (simp_all add: clean_text_def astype_str_def)

lemma clean_whitespace_notna:
  "r \<in> set (df (clean_whitespace Before_3 c)) \<Longrightarrow> get_text col r \<noteq> None"
  by (cases col) (auto simp: clean_whitespace_df clean_text_before_3)

lemma standardize_emails_df:
  "df (standardize_emails c) = map (\<lambda>r. r\<lparr>email := email_value (email r)\<rparr>) (df c)"
proof -
  have "(if invalid_email (r\<lparr>email := map_option lower (email r)\<rparr>)
         then r\<lparr>email := map_option lower (email r)\<rparr>\<lparr>email := None\<rparr>
         else r\<lparr>email := map_option lower (email r)\<rparr>) = r\<lparr>email := email_value (email r)\<rparr>"
    for r :: row
    by (cases "email r") (simp_all add: invalid_email_def valid_email_def email_value_def)
  then show ?thesis
    by (simp add: standardize_emails_def Let_def log_change_def comp_def)
qed

lemma standardize_emails_log:
  "cleaning_log (standardize_emails c) =
     (let n = int (length (filter (\<lambda>r. email r \<noteq> None \<and> email_value (email r) = None) (df c)))
      in if n > 0
         then cleaning_log c @ [\<lparr>step = ''standardize_emails'',
                description = ''Invalid emails removed'', count = n\<rparr>]
         else cleaning_log c)"
proof -
  have "invalid_email (r\<lparr>email := map_option lower (email r)\<rparr>) =
        (email r \<noteq> None \<and> email_value (email r) = None)" for r :: row
    by (cases "email r") (simp_all add: invalid_email_def valid_email_def email_value_def)
  then show ?thesis
    by (simp add: standardize_emails_def Let_def log_change_def filter_map comp_def)
qed

lemma tidy_nan: "tidy ''nan'' = ''nan''"
  by code_simp

lemma clean_text_None: "clean_text Before_3 None = Some ''nan''" "clean_text From_3 None = None"
  by (simp_all add: clean_text_before_3 clean_text_from_3 tidy_nan)

lemma email_value_nan: "email_value (Some ''nan'') = None"
  by code_simp

section \<open>The change log\<close>

lemma clean_whitespace_log:
  "cleaning_log (clean_whitespace pd c) =
     cleaning_log c @ [\<lparr>step = ''clean_whitespace'',
       description = ''Whitespace cleaned in text fields'',
       count = snd (fold (clean_column pd) text_columns (df c, 0))\<rparr>]"
  by (simp add: clean_whitespace_def Let_def log_change_def)

text \<open>
  C2. \<^verbatim>\<open>clean_whitespace\<close> appends its entry whatever the count is: on a table with
  nothing to clean the entry has the count 0, and the log of the run has one entry although
  no step found a change. This is so with either version of pandas.
\<close>

theorem clean_whitespace_logs_zero:
  "cleaning_log (clean_whitespace pd c) =
     cleaning_log c @ [\<lparr>step = ''clean_whitespace'',
       description = ''Whitespace cleaned in text fields'',
       count = snd (fold (clean_column pd) text_columns (df c, 0))\<rparr>]
   \<and> snd (fold (clean_column pd) text_columns ([sample_row], 0)) = 0
   \<and> run_cleaning_pipeline pd (\<lambda>i. sample_now) [sample_row] new_cleaner =
       Inr \<lparr>df = [sample_row], original_df = [sample_row],
            cleaning_log = [\<lparr>step = ''clean_whitespace'',
              description = ''Whitespace cleaned in text fields'', count = 0\<rparr>]\<rparr>"
proof -
  have 2: "snd (fold (clean_column pd) text_columns ([sample_row], 0)) = 0"
    by (cases pd; hypsubst; code_simp)
  have 3: "run_cleaning_pipeline pd (\<lambda>i. sample_now) [sample_row] new_cleaner =
       Inr \<lparr>df = [sample_row], original_df = [sample_row],
            cleaning_log = [\<lparr>step = ''clean_whitespace'',
              description = ''Whitespace cleaned in text fields'', count = 0\<rparr>]\<rparr>"
    by (cases pd; hypsubst; code_simp)
  show ?thesis using clean_whitespace_log[of pd c] 2 3 by (intro conjI)
qed

section \<open>Prices and quantities\<close>







text \<open>
  C7. \<^verbatim>\<open>parse_price\<close> tests the sign before it rounds: the price \<^verbatim>\<open>0.001\<close> is positive,
  passes the test and is rounded to 0.0, so the cleaned table holds a price that is present
  and not positive (a second cleaning would remove it). \<^verbatim>\<open>parse_quantity\<close> tests after
  truncating, so the same text is a missing quantity; an infinite quantity raises
  \<^verbatim>\<open>OverflowError\<close>, which the function does not catch.
\<close>

theorem parse_price_rounds_to_zero:
  "parse_price (Text ''0.001'') = Num (Fin 0)
   \<and> \<not> isna (Num (Fin 0))
   \<and> parse_price (Num (Fin 0)) = Num NaN
   \<and> parse_quantity (Text ''0.001'') = Inr (Num NaN)
   \<and> parse_quantity (Text ''inf'') = Inl OverflowError
   \<and> map_sum id (map price \<circ> df)
        (run_cleaning_pipeline pd (\<lambda>i. sample_now) [sample_row\<lparr>price := Text ''0.001''\<rparr>]
           new_cleaner)
       = Inr [Num (Fin 0)]"
proof -
  have 1: "parse_price (Text ''0.001'') = Num (Fin 0)"
    by code_simp
  have 2: "\<not> isna (Num (Fin 0))"
    by code_simp
  have 3: "parse_price (Num (Fin 0)) = Num NaN"
    by code_simp
  have 4: "parse_quantity (Text ''0.001'') = Inr (Num NaN)"
    by code_simp
  have 5: "parse_quantity (Text ''inf'') = Inl OverflowError"
    by code_simp
  have 6: "map_sum id (map price \<circ> df)
        (run_cleaning_pipeline pd (\<lambda>i. sample_now) [sample_row\<lparr>price := Text ''0.001''\<rparr>]
           new_cleaner)
       = Inr [Num (Fin 0)]"
    by (cases pd; hypsubst; code_simp)
  show ?thesis using 1 2 3 4 5 6 by (intro conjI)
qed

section \<open>Missing values in the text columns\<close>

lemma emails_after_whitespace:
  "map email (df (standardize_emails (clean_whitespace pd c))) =
     map (\<lambda>r. email_value (clean_text pd (email r))) (df c)"
  by (simp add: standardize_emails_df clean_whitespace_df comp_def)

lemma emails_log_after_whitespace:
  "cleaning_log (standardize_emails (clean_whitespace pd c)) =
     (let k = int (length (filter (\<lambda>r. clean_text pd (email r) \<noteq> None
                                      \<and> email_value (clean_text pd (email r)) = None) (df c)))
      in if k > 0
         then cleaning_log (clean_whitespace pd c) @ [\<lparr>step = ''standardize_emails'',
                description = ''Invalid emails removed'', count = k\<rparr>]
         else cleaning_log (clean_whitespace pd c))"
  by (simp add: standardize_emails_log clean_whitespace_df filter_map comp_def)

lemma filter_length_mono:
  "(\<And>x. P x \<Longrightarrow> Q x) \<Longrightarrow> length (filter P xs) \<le> length (filter Q xs)"
  by (induction xs) auto

text \<open>
  C10, as stated, fails from pandas 3.0 on, where \<^verbatim>\<open>astype(str)\<close> leaves a missing value
  missing: a missing email is still missing after \<^verbatim>\<open>clean_whitespace\<close>, it never is the
  text \<^verbatim>\<open>nan\<close>, and \<^verbatim>\<open>standardize_emails\<close> does not count it. (The comparison of the step
  counts the missing cell, so \<^verbatim>\<open>clean_whitespace\<close> logs 1.)
\<close>

theorem clean_whitespace_keeps_missing:
  "map email (df (clean_whitespace From_3 (load_data [sample_row\<lparr>email := None\<rparr>] new_cleaner)))
     = [None]
   \<and> map email (df (standardize_emails
         (clean_whitespace From_3 (load_data [sample_row\<lparr>email := None\<rparr>] new_cleaner))))
       = [None]
   \<and> cleaning_log (standardize_emails
         (clean_whitespace From_3 (load_data [sample_row\<lparr>email := None\<rparr>] new_cleaner)))
       = [\<lparr>step = ''clean_whitespace'', description = ''Whitespace cleaned in text fields'',
            count = 1\<rparr>]"
  by (intro conjI; code_simp)

text \<open>
  C10, amended. With pandas before 3.0, after \<^verbatim>\<open>clean_whitespace\<close> no cell of the five text
  columns is missing: every cell is the cleaned text of its old value, and the old missing
  value counts as the text \<^verbatim>\<open>nan\<close>. An email that was missing therefore reaches
  \<^verbatim>\<open>standardize_emails\<close> as \<^verbatim>\<open>nan\<close>, which does not match the pattern: the row is counted
  among the invalid emails and its email is missing again. From pandas 3.0 on, a missing
  cell stays missing in \<^verbatim>\<open>clean_whitespace\<close>, and \<^verbatim>\<open>standardize_emails\<close> counts only the
  present emails that do not match.
\<close>

theorem clean_whitespace_nan:
  "(\<forall>r \<in> set (df (clean_whitespace Before_3 c)). \<forall>col \<in> set text_columns. get_text col r \<noteq> None)
   \<and> (\<forall>col \<in> set text_columns.
         map (get_text col) (df (clean_whitespace pd c)) =
         map (\<lambda>r. clean_text pd (get_text col r)) (df c))
   \<and> clean_text pd (Some s) = Some (tidy s)
   \<and> clean_text Before_3 None = Some ''nan''
   \<and> clean_text From_3 None = None
   \<and> \<not> re_match_anchored email_pattern (lower ''nan'')
   \<and> map email (df (standardize_emails (clean_whitespace pd c))) =
       map (\<lambda>r. email_value (clean_text pd (email r))) (df c)
   \<and> (\<forall>r. email r = None \<longrightarrow> email_value (clean_text pd (email r)) = None)
   \<and> cleaning_log (standardize_emails (clean_whitespace Before_3 c)) =
       (let k = int (length (filter (\<lambda>r. email_value (clean_text Before_3 (email r)) = None) (df c)))
        in if k > 0
           then cleaning_log (clean_whitespace Before_3 c) @ [\<lparr>step = ''standardize_emails'',
                  description = ''Invalid emails removed'', count = k\<rparr>]
           else cleaning_log (clean_whitespace Before_3 c))
   \<and> length (filter (\<lambda>r. email r = None) (df c))
       \<le> length (filter (\<lambda>r. email_value (clean_text Before_3 (email r)) = None) (df c))
   \<and> cleaning_log (standardize_emails (clean_whitespace From_3 c)) =
       (let k = int (length (filter (\<lambda>r. email r \<noteq> None
                                        \<and> email_value (clean_text From_3 (email r)) = None) (df c)))
        in if k > 0
           then cleaning_log (clean_whitespace From_3 c) @ [\<lparr>step = ''standardize_emails'',
                  description = ''Invalid emails removed'', count = k\<rparr>]
           else cleaning_log (clean_whitespace From_3 c))"
proof -
  have 1: "\<forall>r \<in> set (df (clean_whitespace Before_3 c)). \<forall>col \<in> set text_columns.
             get_text col r \<noteq> None"
    using clean_whitespace_notna by blast
  have 2: "\<forall>col \<in> set text_columns.
         map (get_text col) (df (clean_whitespace pd c)) =
         map (\<lambda>r. clean_text pd (get_text col r)) (df c)"
    using clean_whitespace_column by blast
  have 4: "\<not> re_match_anchored email_pattern (lower ''nan'')"
    by code_simp
  have 6: "\<forall>r. email r = None \<longrightarrow> email_value (clean_text pd (email r)) = None"
    by (cases pd) (simp_all add: clean_text_None email_value_nan, simp add: email_value_def)
  have 7: "cleaning_log (standardize_emails (clean_whitespace Before_3 c)) =
       (let k = int (length (filter (\<lambda>r. email_value (clean_text Before_3 (email r)) = None) (df c)))
        in if k > 0
           then cleaning_log (clean_whitespace Before_3 c) @ [\<lparr>step = ''standardize_emails'',
                  description = ''Invalid emails removed'', count = k\<rparr>]
           else cleaning_log (clean_whitespace Before_3 c))"
    unfolding emails_log_after_whitespace by (simp add: clean_text_before_3)
  have b6: "\<forall>r. email r = None \<longrightarrow> email_value (clean_text Before_3 (email r)) = None"
    by (simp add: clean_text_None email_value_nan)
  have 8: "length (filter (\<lambda>r. email r = None) (df c))
       \<le> length (filter (\<lambda>r. email_value (clean_text Before_3 (email r)) = None) (df c))"
    using b6 by (intro filter_length_mono) blast
  have "(clean_text From_3 (email r) \<noteq> None) = (email r \<noteq> None)" for r :: row
    by (simp add: clean_text_from_3)
  then have 9: "cleaning_log (standardize_emails (clean_whitespace From_3 c)) =
       (let k = int (length (filter (\<lambda>r. email r \<noteq> None
                                        \<and> email_value (clean_text From_3 (email r)) = None) (df c)))
        in if k > 0
           then cleaning_log (clean_whitespace From_3 c) @ [\<lparr>step = ''standardize_emails'',
                  description = ''Invalid emails removed'', count = k\<rparr>]
           else cleaning_log (clean_whitespace From_3 c))"
    unfolding emails_log_after_whitespace by simp
  show ?thesis
    using 1 2 clean_text_Some[of pd s] clean_text_None 4 emails_after_whitespace[of pd c] 6 7 8 9
    by (intro conjI)
qed

theorem clean_whitespace_nan_witness:
  "get_text Email (sample_row\<lparr>email := None\<rparr>) = None
   \<and> map email (df (clean_whitespace Before_3 (load_data [sample_row\<lparr>email := None\<rparr>] new_cleaner)))
       = [Some ''nan'']
   \<and> map email (df (standardize_emails
         (clean_whitespace Before_3 (load_data [sample_row\<lparr>email := None\<rparr>] new_cleaner))))
       = [None]
   \<and> cleaning_log (standardize_emails
         (clean_whitespace Before_3 (load_data [sample_row\<lparr>email := None\<rparr>] new_cleaner)))
       = [\<lparr>step = ''clean_whitespace'', description = ''Whitespace cleaned in text fields'',
            count = 0\<rparr>,
          \<lparr>step = ''standardize_emails'', description = ''Invalid emails removed'', count = 1\<rparr>]"
proof -
  let ?c = "load_data [sample_row\<lparr>email := None\<rparr>] new_cleaner"
  have d: "df ?c = [sample_row\<lparr>email := None\<rparr>]"
    by (simp add: load_data_def)
  have l: "cleaning_log (clean_whitespace Before_3 ?c) =
      [\<lparr>step = ''clean_whitespace'', description = ''Whitespace cleaned in text fields'',
            count = 0\<rparr>]"
    by code_simp
  have t: "Email \<in> set text_columns"
    by (simp add: text_columns_def)
  note w = clean_whitespace_nan[of ?c Before_3 "[]"]
  from w have w2: "\<forall>col \<in> set text_columns.
         map (get_text col) (df (clean_whitespace Before_3 ?c)) =
         map (\<lambda>r. clean_text Before_3 (get_text col r)) (df ?c)"
    by (elim conjE)
  from w have w3: "clean_text Before_3 None = Some ''nan''"
    by (elim conjE)
  from w have w5: "map email (df (standardize_emails (clean_whitespace Before_3 ?c))) =
       map (\<lambda>r. email_value (clean_text Before_3 (email r))) (df ?c)"
    by (elim conjE)
  from w have w6: "\<forall>r. email r = None \<longrightarrow> email_value (clean_text Before_3 (email r)) = None"
    by (elim conjE)
  from w have w7: "cleaning_log (standardize_emails (clean_whitespace Before_3 ?c)) =
       (let k = int (length (filter (\<lambda>r. email_value (clean_text Before_3 (email r)) = None) (df ?c)))
        in if k > 0
           then cleaning_log (clean_whitespace Before_3 ?c) @ [\<lparr>step = ''standardize_emails'',
                  description = ''Invalid emails removed'', count = k\<rparr>]
           else cleaning_log (clean_whitespace Before_3 ?c))"
    by (elim conjE)
  have g: "get_text Email (sample_row\<lparr>email := None\<rparr>) = None"
    by simp
  from w2 t have "map (get_text Email) (df (clean_whitespace Before_3 ?c)) =
         map (\<lambda>r. clean_text Before_3 (get_text Email r)) (df ?c)"
    by blast
  moreover have "get_text Email = email"
    by (rule ext) simp
  ultimately have a: "map email (df (clean_whitespace Before_3 ?c)) = [Some ''nan'']"
    by (simp add: d w3)
  from w6 g have n: "email_value (clean_text Before_3 (email (sample_row\<lparr>email := None\<rparr>))) = None"
    by (metis get_text.simps(2))
  have b: "map email (df (standardize_emails (clean_whitespace Before_3 ?c))) = [None]"
    unfolding w5 d using n by simp
  have e: "cleaning_log (standardize_emails (clean_whitespace Before_3 ?c)) =
      [\<lparr>step = ''clean_whitespace'', description = ''Whitespace cleaned in text fields'',
            count = 0\<rparr>,
          \<lparr>step = ''standardize_emails'', description = ''Invalid emails removed'', count = 1\<rparr>]"
    unfolding w7 d l using n by simp
  show ?thesis using g a b e by (intro conjI)
qed

section \<open>Cleaned text is trimmed and single-spaced\<close>

lemma dropWhile_hd: "dropWhile P xs \<noteq> [] \<Longrightarrow> \<not> P (hd (dropWhile P xs))"
  using hd_dropWhile by blast

lemma rstrip_decomp: "\<exists>w. s = rstrip s @ w \<and> (\<forall>x \<in> set w. is_space x)"
proof -
  have "rev s = takeWhile is_space (rev s) @ dropWhile is_space (rev s)" by simp
  then have "s = rev (dropWhile is_space (rev s)) @ rev (takeWhile is_space (rev s))"
    by (metis rev_append rev_rev_ident)
  moreover have "\<forall>x \<in> set (rev (takeWhile is_space (rev s))). is_space x"
    by (auto dest: set_takeWhileD)
  ultimately show ?thesis unfolding rstrip_def by blast
qed

lemma rstrip_last: "rstrip s \<noteq> [] \<Longrightarrow> \<not> is_space (last (rstrip s))"
  unfolding rstrip_def by (simp add: last_rev dropWhile_hd)

lemma rstrip_hd: "rstrip s \<noteq> [] \<Longrightarrow> hd (rstrip s) = hd s"
  using rstrip_decomp[of s] by (metis hd_append2)

lemma strip_trimmed: "trimmed (strip s)"
proof (cases "strip s = []")
  case True
  then show ?thesis by (simp add: trimmed_def)
next
  case False
  then have ne: "rstrip (lstrip s) \<noteq> []" by (simp add: strip_def)
  then have "lstrip s \<noteq> []" by (auto simp: rstrip_def)
  then have "\<not> is_space (hd (lstrip s))" unfolding lstrip_def by (rule dropWhile_hd)
  with rstrip_hd[OF ne] rstrip_last[OF ne] show ?thesis
    by (simp add: trimmed_def strip_def)
qed

lemma strip_id: "trimmed s \<Longrightarrow> strip s = s"
proof (cases s)
  case Nil
  then show ?thesis by (simp add: strip_def lstrip_def rstrip_def)
next
  case (Cons x xs)
  assume "trimmed s"
  with Cons have h: "\<not> is_space (hd s)" and l: "\<not> is_space (last s)"
    by (auto simp: trimmed_def)
  have 1: "lstrip s = s" using Cons h by (simp add: lstrip_def)
  have "hd (rev s) = last s" using Cons by (simp add: hd_rev)
  then have "dropWhile is_space (rev s) = rev s"
    using l Cons by (cases "rev s") auto
  then show ?thesis by (simp add: strip_def 1 rstrip_def)
qed

lemma collapse_hd:
  "t \<noteq> [] \<Longrightarrow> \<not> is_space (hd t) \<Longrightarrow> collapse_spaces t \<noteq> [] \<and> hd (collapse_spaces t) = hd t"
  by (cases t) auto

lemma collapse_last:
  "s \<noteq> [] \<Longrightarrow> \<not> is_space (last s) \<Longrightarrow>
   collapse_spaces s \<noteq> [] \<and> last (collapse_spaces s) = last s"
proof (induction s rule: collapse_spaces.induct)
  case 1
  then show ?case by simp
next
  case (2 c cs)
  show ?case
  proof (cases "is_space c")
    case True
    with 2(3,4) have cs: "cs \<noteq> []" "\<not> is_space (last cs)" by (auto split: if_splits)
    then have "\<exists>x \<in> set cs. \<not> is_space x" using last_in_set by blast
    then have d: "dropWhile is_space cs \<noteq> []" by (simp add: dropWhile_eq_Nil_conv)
    then have "last (dropWhile is_space cs) = last cs"
      by (metis append_Nil2 last_appendR takeWhile_dropWhile_id)
    with 2(1)[OF True d] cs True show ?thesis by simp
  next
    case False
    show ?thesis
    proof (cases "cs = []")
      case True
      with False show ?thesis by simp
    next
      case ne: False
      with 2(4) have "\<not> is_space (last cs)" by simp
      with 2(2)[OF False ne] False ne show ?thesis by simp
    qed
  qed
qed

lemma collapse_single_spaced: "single_spaced (collapse_spaces s)"
proof (induction s rule: collapse_spaces.induct)
  case 1
  show ?case by simp
next
  case (2 c cs)
  show ?case
  proof (cases "is_space c")
    case True
    have "collapse_spaces (dropWhile is_space cs) = [] \<or>
          \<not> is_space (hd (collapse_spaces (dropWhile is_space cs)))"
    proof (cases "dropWhile is_space cs = []")
      case True
      show ?thesis unfolding True by simp
    next
      case False
      then have n: "\<not> is_space (hd (dropWhile is_space cs))" by (rule dropWhile_hd)
      from collapse_hd[OF False n] n show ?thesis by simp
    qed
    with 2(1)[OF True] True show ?thesis by (simp add: is_space_def space_chars_def)
  next
    case False
    with 2(2)[OF False] show ?thesis by simp
  qed
qed

lemma collapse_id: "single_spaced s \<Longrightarrow> collapse_spaces s = s"
proof (induction s rule: collapse_spaces.induct)
  case 1
  show ?case by simp
next
  case (2 c cs)
  show ?case
  proof (cases "is_space c")
    case True
    with 2(3) have c: "c = CHR '' ''" and h: "cs = [] \<or> \<not> is_space (hd cs)"
      and s: "single_spaced cs" by auto
    from h have d: "dropWhile is_space cs = cs" by (cases cs) auto
    from 2(1)[OF True] s d have "collapse_spaces cs = cs" by simp
    with True c d show ?thesis by simp
  next
    case False
    with 2(2)[OF False] 2(3) show ?thesis by simp
  qed
qed

lemma replace_tab_id: "single_spaced s \<Longrightarrow> replace_tab s = s"
proof (induction s)
  case Nil
  show ?case by (simp add: replace_tab_def)
next
  case (Cons c cs)
  have "is_space (CHR 0x09)" by (simp add: is_space_def space_chars_def)
  with Cons.prems have "c \<noteq> CHR 0x09" by (auto split: if_splits)
  with Cons show ?case by (simp add: replace_tab_def)
qed

lemma collapse_trimmed: "trimmed s \<Longrightarrow> trimmed (collapse_spaces s)"
  using collapse_hd[of s] collapse_last[of s] by (cases "s = []") (auto simp: trimmed_def)

lemma tidy_collapse: "tidy s = collapse_spaces (strip s)"
  by (simp add: tidy_def replace_tab_id collapse_single_spaced)

lemma tidy_trimmed: "trimmed (tidy s)"
  unfolding tidy_collapse by (intro collapse_trimmed strip_trimmed)

lemma tidy_single_spaced: "single_spaced (tidy s)"
  unfolding tidy_collapse by (rule collapse_single_spaced)

lemma tidy_idem: "tidy (tidy s) = tidy s"
proof -
  have "tidy (tidy s) = collapse_spaces (strip (tidy s))"
    by (rule tidy_collapse)
  also have "\<dots> = collapse_spaces (tidy s)"
    by (simp add: strip_id tidy_trimmed)
  also have "\<dots> = tidy s"
    by (simp add: collapse_id tidy_single_spaced)
  finally show ?thesis .
qed

lemma tidy_no_whitespace: "\<not> has_whitespace pd (Some (tidy s))"
  by (simp add: has_whitespace_def astype_str_def series_ne_def strip_id tidy_trimmed)

lemma clean_text_trimmed: "clean_text pd v = Some u \<Longrightarrow> trimmed u"
  by (auto simp: clean_text_def tidy_trimmed)

section \<open>Emails\<close>

lemma lower_char_cases:
  "lower_char c = c \<and> \<not> is_upper c \<or> is_lower (lower_char c) \<and> is_upper c"
  unfolding lower_char_def is_upper_def is_lower_def upper_letters_def lower_letters_def
  by (simp split: if_splits)

lemma lower_not_space: "is_lower c \<Longrightarrow> \<not> is_space c"
  unfolding is_lower_def lower_letters_def is_space_def space_chars_def by auto

lemma lower_not_upper: "is_lower c \<Longrightarrow> \<not> is_upper c"
  unfolding is_lower_def lower_letters_def is_upper_def upper_letters_def by auto

lemma upper_not_space: "is_upper c \<Longrightarrow> \<not> is_space c"
  unfolding is_upper_def upper_letters_def is_space_def space_chars_def by auto

lemma lower_char_space: "is_space (lower_char c) = is_space c"
  using lower_char_cases[of c] lower_not_space upper_not_space by metis

lemma lower_char_not_upper: "\<not> is_upper (lower_char c)"
  using lower_char_cases[of c] lower_not_upper by metis

lemma lower_is_lowercase: "is_lowercase (lower s)"
  by (simp add: is_lowercase_def lower_def lower_char_not_upper)

lemma lower_trimmed: "trimmed s \<Longrightarrow> trimmed (lower s)"
  by (cases "s = []") (simp_all add: trimmed_def lower_def hd_map last_map lower_char_space)

lemma re_match_email:
  "re_match_anchored email_pattern s \<longleftrightarrow>
     email_shape s \<or> (\<exists>t. s = t @ [CHR 0x0A] \<and> email_shape t)"
proof -
  have "(s \<noteq> [] \<and> last s = CHR 0x0A \<and> email_shape (butlast s)) \<longleftrightarrow>
        (\<exists>t. s = t @ [CHR 0x0A] \<and> email_shape t)"
    by (metis append_butlast_last_id butlast_snoc last_snoc snoc_eq_iff_butlast)
  then show ?thesis
    by (simp add: re_match_anchored_def fullmatch_lang lang_email_pattern)
qed

lemma re_match_email_trimmed:
  assumes "trimmed s" "re_match_anchored email_pattern s"
  shows "email_shape s"
proof -
  have nl: "is_space (CHR 0x0A)" by (simp add: is_space_def space_chars_def)
  have "\<not> (\<exists>t. s = t @ [CHR 0x0A])"
    using assms(1) nl by (auto simp: trimmed_def)
  with assms(2) show ?thesis by (auto simp: re_match_email)
qed

lemma email_value_Some:
  "email_value (Some s) =
     (if email_shape (lower s) \<or> (\<exists>t. lower s = t @ [CHR 0x0A] \<and> email_shape t)
      then Some (lower s) else None)"
  by (simp add: email_value_def re_match_email)

lemma email_value_lowercase: "email_value v = Some e \<Longrightarrow> is_lowercase e"
  by (cases v) (auto simp: email_value_def lower_is_lowercase split: if_splits)

lemma email_value_trimmed:
  assumes "trimmed u"
  shows "email_value (Some u) = (if email_shape (lower u) then Some (lower u) else None)"
proof -
  from assms have "trimmed (lower u)" by (rule lower_trimmed)
  then have "re_match_anchored email_pattern (lower u) = email_shape (lower u)"
    using re_match_email_trimmed re_match_email by blast
  then show ?thesis by (simp add: email_value_def)
qed

text \<open>The email of a row after \<^verbatim>\<open>clean_whitespace\<close> and \<^verbatim>\<open>standardize_emails\<close>.\<close>

lemma email_value_clean_text:
  "email_value (clean_text pd v) =
     (case clean_text pd v of
        None \<Rightarrow> None
      | Some u \<Rightarrow> if email_shape (lower u) then Some (lower u) else None)"
proof (cases "clean_text pd v")
  case None
  then show ?thesis by (simp add: email_value_def)
next
  case (Some u)
  then have "trimmed u" by (rule clean_text_trimmed)
  then show ?thesis by (simp add: Some email_value_trimmed)
qed

lemma email_value_shape:
  assumes "email_value (clean_text pd v) = Some e"
  shows "is_lowercase e \<and> email_shape e"
proof -
  from assms obtain u where u: "clean_text pd v = Some u"
    by (cases "clean_text pd v") (auto simp: email_value_def)
  from u have "trimmed u" by (rule clean_text_trimmed)
  with assms have "e = lower u \<and> email_shape (lower u)"
    by (simp add: u email_value_trimmed split: if_splits)
  then show ?thesis by (simp add: lower_is_lowercase)
qed

lemma clean_text_eq_None: "clean_text pd v = None \<longleftrightarrow> pd = From_3 \<and> v = None"
  by (cases pd; cases v) (simp_all add: clean_text_def astype_str_def)

lemma standardize_emails_column:
  "map email (df (standardize_emails c)) = map (email_value \<circ> email) (df c)"
  by (simp add: standardize_emails_df)

lemma clean_phone_numbers_email: "map email (df (clean_phone_numbers c)) = map email (df c)"
  by (simp add: clean_phone_numbers_def Let_def log_change_def comp_def)

lemma standardize_dates_email: "map email (df (standardize_dates clock c)) = map email (df c)"
proof -
  have "map (email \<circ> (\<lambda>(i, r). r\<lparr>order_date := parse_date (clock i) (order_date r)\<rparr>)) xs
        = map (email \<circ> snd) xs" for xs :: "(nat \<times> row) list"
    by (rule map_cong) auto
  then show ?thesis
    by (simp add: standardize_dates_def Let_def log_change_def map_snd_enumerate
        flip: map_map)
qed

lemma clean_prices_email: "map email (df (clean_prices c)) = map email (df c)"
  by (simp add: clean_prices_def Let_def log_change_def comp_def)

lemma clean_quantities_email:
  assumes "clean_quantities c = Inr c'"
  shows "map email (df c') = map email (df c)"
proof -
  from assms obtain col where a: "apply_raising parse_quantity (map quantity (df c)) = Inr col"
    and d: "df c' = map (\<lambda>(r, v). r\<lparr>quantity := v\<rparr>) (zip (df c) col)"
    by (auto simp: clean_quantities_def Let_def log_change_def split: sum.splits if_splits)
  from apply_raising_length[OF a] have l: "length col = length (df c)" by simp
  have "map (email \<circ> (\<lambda>(r, v). r\<lparr>quantity := v\<rparr>)) xs = map (email \<circ> fst) xs"
    for xs :: "(row \<times> cell) list"
    by (rule map_cong) auto
  then show ?thesis using l by (simp add: d flip: map_map)
qed

lemma standardize_categories_email:
  "map email (df (standardize_categories c)) = map email (df c)"
  by (simp add: standardize_categories_df comp_def)

lemma standardize_status_email: "map email (df (standardize_status c)) = map email (df c)"
  by (simp add: standardize_status_def Let_def log_change_def comp_def)

lemma pipeline_emails:
  assumes "run_cleaning_pipeline pd clock t c = Inr c'"
  shows "map email (df c') =
         map (\<lambda>r. email_value (clean_text pd (email r))) (drop_duplicates t)"
proof -
  from assms obtain c6 where
    q: "clean_quantities (clean_prices (standardize_dates clock (clean_phone_numbers
            (standardize_emails (clean_whitespace pd (remove_duplicates (load_data t c))))))) = Inr c6"
    and c': "c' = standardize_status (standardize_categories c6)"
    unfolding pipeline_split by blast
  have "map email (df c') = map email (df c6)"
    by (simp add: c' standardize_status_email standardize_categories_email)
  also have "\<dots> = map email (df (standardize_emails (clean_whitespace pd
                      (remove_duplicates (load_data t c)))))"
    by (simp add: clean_quantities_email[OF q] clean_prices_email standardize_dates_email
        clean_phone_numbers_email)
  also have "\<dots> = map (\<lambda>r. email_value (clean_text pd (email r))) (drop_duplicates t)"
    by (simp add: emails_after_whitespace remove_duplicates_df load_data_def)
  finally show ?thesis .
qed

text \<open>
  C3. \<^verbatim>\<open>standardize_emails\<close> runs on the table that \<^verbatim>\<open>clean_whitespace\<close> leaves. An email
  that is missing there stays missing and is not counted. A present email is lower-cased;
  it is kept if the lower-cased text, in its entirety, is a local part, \<^verbatim>\<open>@\<close>, a domain, a
  dot and a label of at least two letters, and otherwise it becomes missing and the row is
  counted. (A cell is missing after \<^verbatim>\<open>clean_whitespace\<close> only from pandas 3.0 on, for a cell
  that was missing before.) In a run of the pipeline every present email of the cleaned
  table is lower-case and matches the pattern in full.
\<close>

theorem standardize_emails_spec:
  "map email (df (standardize_emails (clean_whitespace pd c))) =
     map (\<lambda>r. case clean_text pd (email r) of
                 None \<Rightarrow> None
               | Some u \<Rightarrow> if email_shape (lower u) then Some (lower u) else None) (df c)
   \<and> cleaning_log (standardize_emails (clean_whitespace pd c)) =
       (let n = int (length (filter (\<lambda>r. case clean_text pd (email r) of
                                              None \<Rightarrow> False
                                            | Some u \<Rightarrow> \<not> email_shape (lower u)) (df c)))
        in if n > 0
           then cleaning_log (clean_whitespace pd c) @ [\<lparr>step = ''standardize_emails'',
                  description = ''Invalid emails removed'', count = n\<rparr>]
           else cleaning_log (clean_whitespace pd c))
   \<and> (clean_text pd v = None \<longleftrightarrow> pd = From_3 \<and> v = None)
   \<and> is_lowercase (lower u)
   \<and> (\<forall>c'. run_cleaning_pipeline pd clock t c = Inr c' \<longrightarrow>
         (\<forall>r \<in> set (df c'). \<forall>e. email r = Some e \<longrightarrow> is_lowercase e \<and> email_shape e))"
proof -
  have 1: "map email (df (standardize_emails (clean_whitespace pd c))) =
     map (\<lambda>r. case clean_text pd (email r) of
                 None \<Rightarrow> None
               | Some u \<Rightarrow> if email_shape (lower u) then Some (lower u) else None) (df c)"
    unfolding emails_after_whitespace email_value_clean_text ..
  have "(clean_text pd (email r) \<noteq> None \<and> email_value (clean_text pd (email r)) = None) =
        (case clean_text pd (email r) of None \<Rightarrow> False | Some u \<Rightarrow> \<not> email_shape (lower u))"
    for r :: row
    unfolding email_value_clean_text by (simp split: option.splits)
  then have 2: "cleaning_log (standardize_emails (clean_whitespace pd c)) =
       (let n = int (length (filter (\<lambda>r. case clean_text pd (email r) of
                                              None \<Rightarrow> False
                                            | Some u \<Rightarrow> \<not> email_shape (lower u)) (df c)))
        in if n > 0
           then cleaning_log (clean_whitespace pd c) @ [\<lparr>step = ''standardize_emails'',
                  description = ''Invalid emails removed'', count = n\<rparr>]
           else cleaning_log (clean_whitespace pd c))"
    unfolding emails_log_after_whitespace by simp
  have 5: "\<forall>c'. run_cleaning_pipeline pd clock t c = Inr c' \<longrightarrow>
         (\<forall>r \<in> set (df c'). \<forall>e. email r = Some e \<longrightarrow> is_lowercase e \<and> email_shape e)"
  proof (intro allI impI ballI)
    fix c' r e
    assume run: "run_cleaning_pipeline pd clock t c = Inr c'" and r: "r \<in> set (df c')"
      and e: "email r = Some e"
    from r e have "Some e \<in> set (map email (df c'))" by force
    then have "Some e \<in> (\<lambda>r. email_value (clean_text pd (email r))) ` set (drop_duplicates t)"
      unfolding pipeline_emails[OF run] by simp
    then obtain r0 :: row where "Some e = email_value (clean_text pd (email r0))"
      by blast
    then have "email_value (clean_text pd (email r0)) = Some e"
      by simp
    then show "is_lowercase e \<and> email_shape e" by (rule email_value_shape)
  qed
  show ?thesis
    using 1 2 clean_text_eq_None[of pd v] lower_is_lowercase[of u] 5
    by (intro conjI)
qed

theorem standardize_emails_spec_witness:
  "\<exists>c'. run_cleaning_pipeline Before_3 (\<lambda>i. sample_now)
          [sample_row\<lparr>email := Some ''JOHN.DOE@EXAMPLE.COM  ''\<rparr>] new_cleaner = Inr c'
        \<and> map email (df c') = [Some ''john.doe@example.com'']
        \<and> is_lowercase ''john.doe@example.com'' \<and> email_shape ''john.doe@example.com''"
proof -
  let ?run = "run_cleaning_pipeline Before_3 (\<lambda>i. sample_now)
          [sample_row\<lparr>email := Some ''JOHN.DOE@EXAMPLE.COM  ''\<rparr>] new_cleaner"
  have "map_sum id (map email \<circ> df) ?run = Inr [Some ''john.doe@example.com'']"
    by code_simp
  then obtain c' where run: "?run = Inr c'"
    and m: "map email (df c') = [Some ''john.doe@example.com'']"
    by (cases ?run) auto
  from m obtain r where r: "r \<in> set (df c')" "email r = Some ''john.doe@example.com''"
    by (cases "df c'") auto
  from standardize_emails_spec[of Before_3 new_cleaner None "[]" "\<lambda>i. sample_now"
      "[sample_row\<lparr>email := Some ''JOHN.DOE@EXAMPLE.COM  ''\<rparr>]"]
  have "\<forall>c'. ?run = Inr c' \<longrightarrow>
         (\<forall>r \<in> set (df c'). \<forall>e. email r = Some e \<longrightarrow> is_lowercase e \<and> email_shape e)"
    by (elim conjE)
  with run r have le: "is_lowercase ''john.doe@example.com'' \<and> email_shape ''john.doe@example.com''"
    by blast
  from le have l: "is_lowercase ''john.doe@example.com''" ..
  from le have s: "email_shape ''john.doe@example.com''" ..
  show ?thesis using run m l s by (intro exI[of _ c'] conjI)
qed

section \<open>Dates\<close>

lemma try_formats_none:
  "(\<forall>f \<in> set fmts. strptime x f = None) \<Longrightarrow> try_formats now x fmts = None"
  by (induction fmts) auto

lemma try_formats_first:
  "(\<forall>g \<in> set pre. strptime x g = None) \<Longrightarrow> strptime x f = Some d \<Longrightarrow>
   try_formats now x (pre @ f # post) =
     (if datetime_gt d now then None else Some (strftime_ymd d))"
  by (induction pre) auto

lemma digit_char_is_digit: "is_digit (digit_char n)"
proof -
  have "nat (n mod 10) < length digit_chars" by (simp add: digit_chars_def nat_less_iff)
  then have "digit_chars ! nat (n mod 10) \<in> set digit_chars" by (rule nth_mem)
  then show ?thesis by (simp add: digit_char_def is_digit_def digit_chars_def)
qed

lemma digit_val_digit_char: "digit_val (digit_char n) = n mod 10"
proof -
  define k where "k = n mod 10"
  have "0 \<le> k" "k < 10" by (simp_all add: k_def)
  then have "k = 0 \<or> k = 1 \<or> k = 2 \<or> k = 3 \<or> k = 4 \<or> k = 5 \<or> k = 6 \<or> k = 7
      \<or> k = 8 \<or> k = 9"
    by arith
  then have "digit_val (digit_chars ! nat k) = k"
    by (elim disjE) (simp_all add: digit_val_def digit_chars_def)
  then show ?thesis by (simp add: digit_char_def k_def)
qed

lemma zero_pad_length: "length (zero_pad w n) = w"
  by (induction w arbitrary: n) auto

lemma zero_pad_digits: "list_all is_digit (zero_pad w n)"
  by (induction w arbitrary: n) (auto simp: digit_char_is_digit)

lemma zero_pad_value: "0 \<le> n \<Longrightarrow> n < 10 ^ w \<Longrightarrow> int_of_digits (zero_pad w n) = n"
proof (induction w arbitrary: n)
  case 0
  then show ?case by (simp add: int_of_digits_def)
next
  case (Suc w)
  have f: "filter is_digit (zero_pad w (n div 10)) = zero_pad w (n div 10)"
    using zero_pad_digits by (simp add: list_all_iff)
  from Suc.prems have "0 \<le> n div 10" "n div 10 < 10 ^ w" by auto
  from Suc.IH[OF this] have "int_of_digits (zero_pad w (n div 10)) = n div 10" .
  then show ?case
    by (simp add: int_of_digits_def f digit_char_is_digit digit_val_digit_char)
qed

lemma strptime_valid:
  assumes "strptime x fmt = Some dt"
  shows "valid_date (year dt) (month dt) (day dt) \<and> dt = midnight (year dt) (month dt) (day dt)"
  using assms
  by (auto simp: strptime_def midnight_def split: list.splits prod.splits if_splits)

lemma year_text_four: "1000 \<le> y \<Longrightarrow> year_text y = zero_pad 4 y"
  by (simp add: year_text_def del: zero_pad.simps)

lemma year_text_short: "y < 1000 \<Longrightarrow> length (year_text y) < 4"
  by (simp add: year_text_def zero_pad_length del: zero_pad.simps)

lemma datetime_gt_midnight:
  "datetime_gt (midnight y m d) now \<longleftrightarrow>
     y > year now \<or> y = year now \<and> (m > month now \<or> m = month now \<and>
       (d > day now \<or> d = day now \<and> lex_gt [0, 0, 0, 0] [hour now, minute now, second now, microsecond now]))"
  by (simp add: datetime_gt_def datetime_fields_def midnight_def)

lemma standardize_dates_column:
  "map order_date (df (standardize_dates clock c)) =
     map (\<lambda>(i, r). parse_date (clock i) (order_date r)) (enumerate 0 (df c))"
proof -
  have "map (order_date \<circ> (\<lambda>(i, r). r\<lparr>order_date := parse_date (clock i) (order_date r)\<rparr>)) xs
        = map (\<lambda>(i, r). parse_date (clock i) (order_date r)) xs" for xs :: "(nat \<times> row) list"
    by (rule map_cong) auto
  then show ?thesis
    by (simp add: standardize_dates_def Let_def log_change_def)
qed

text \<open>
  What \<^verbatim>\<open>parse_date\<close> does in general: a missing date stays missing, a present one is
  trimmed and the five formats are tried in their order. If no format parses the text the
  result is missing. Otherwise the first format that parses it decides: a date later than
  the time of processing gives the missing value, and any other date is written by
  \<^verbatim>\<open>strftime\<close>, with four digits for a year from 1000 on.
\<close>

lemma parse_date_cases:
  "parse_date now None = None
   \<and> ((\<forall>f \<in> set date_formats. strptime (strip s) f = None) \<longrightarrow>
         parse_date now (Some s) = None)
   \<and> (\<forall>pre f post d.
         date_formats = pre @ f # post \<and> (\<forall>g \<in> set pre. strptime (strip s) g = None)
         \<and> strptime (strip s) f = Some d \<longrightarrow>
         parse_date now (Some s) = (if datetime_gt d now then None else Some (strftime_ymd d)))
   \<and> (\<forall>f dt. strptime x f = Some dt \<longrightarrow>
         dt = midnight (year dt) (month dt) (day dt)
         \<and> valid_date (year dt) (month dt) (day dt))
   \<and> (1000 \<le> year dt \<longrightarrow>
         strftime_ymd dt = zero_pad 4 (year dt) @ ''-'' @ zero_pad 2 (month dt) @ ''-''
                            @ zero_pad 2 (day dt))"
proof -
  have 1: "parse_date now None = None"
    by (simp add: parse_date_def)
  have 4: "(\<forall>f \<in> set date_formats. strptime (strip s) f = None) \<longrightarrow>
         parse_date now (Some s) = None"
    by (simp add: parse_date_def try_formats_none)
  have 5: "\<forall>pre f post d.
         date_formats = pre @ f # post \<and> (\<forall>g \<in> set pre. strptime (strip s) g = None)
         \<and> strptime (strip s) f = Some d \<longrightarrow>
         parse_date now (Some s) = (if datetime_gt d now then None else Some (strftime_ymd d))"
  proof (intro allI impI, elim conjE)
    fix pre f post d
    assume a: "date_formats = pre @ f # post" "\<forall>g \<in> set pre. strptime (strip s) g = None"
      "strptime (strip s) f = Some d"
    have "parse_date now (Some s) = try_formats now (strip s) (pre @ f # post)"
      by (simp add: parse_date_def a(1))
    with try_formats_first[OF a(2,3)]
    show "parse_date now (Some s) = (if datetime_gt d now then None else Some (strftime_ymd d))"
      by simp
  qed
  have 6: "\<forall>f dt. strptime x f = Some dt \<longrightarrow>
         dt = midnight (year dt) (month dt) (day dt)
         \<and> valid_date (year dt) (month dt) (day dt)"
    using strptime_valid by blast
  have 7: "1000 \<le> year dt \<longrightarrow>
         strftime_ymd dt = zero_pad 4 (year dt) @ ''-'' @ zero_pad 2 (month dt) @ ''-''
                            @ zero_pad 2 (day dt)"
    by (simp add: strftime_ymd_def year_text_four del: zero_pad.simps)
  show ?thesis
    using 1 4 5 6 7 by (intro conjI)
qed

text \<open>
  C4. The date \<^verbatim>\<open>01/15/0999\<close> is parsed by the first format and is not in the future, and
  \<^verbatim>\<open>strftime\<close> writes its year without padding: the cleaned value is \<^verbatim>\<open>999-01-15\<close>, which is
  not of the form \<^verbatim>\<open>YYYY-MM-DD\<close> that the docstring of the step announces and which no
  format of the step reads back. A date with a year of four digits is written as the claim
  says: \<^verbatim>\<open>15 January 2024\<close> becomes \<^verbatim>\<open>2024-01-15\<close>.
\<close>

theorem parse_date_short_year:
  "strptime ''01/15/0999'' ''%m/%d/%Y'' = Some (midnight 999 1 15)
   \<and> \<not> datetime_gt (midnight 999 1 15) sample_now
   \<and> strftime_ymd (midnight 999 1 15) = ''999-01-15''
   \<and> parse_date sample_now (Some ''01/15/0999'') = Some ''999-01-15''
   \<and> parse_date sample_now (Some ''999-01-15'') = None
   \<and> parse_date sample_now (Some ''15 January 2024'') = Some ''2024-01-15''
   \<and> map_sum id (map order_date \<circ> df)
        (run_cleaning_pipeline pd (\<lambda>i. sample_now)
           [sample_row\<lparr>order_date := Some ''01/15/0999''\<rparr>] new_cleaner)
       = Inr [Some ''999-01-15'']"
proof -
  have 1: "strptime ''01/15/0999'' ''%m/%d/%Y'' = Some (midnight 999 1 15)"
    by code_simp
  have 2: "\<not> datetime_gt (midnight 999 1 15) sample_now"
    by code_simp
  have 3: "strftime_ymd (midnight 999 1 15) = ''999-01-15''"
    by code_simp
  have 4: "parse_date sample_now (Some ''01/15/0999'') = Some ''999-01-15''"
    by code_simp
  have 5: "parse_date sample_now (Some ''999-01-15'') = None"
    by code_simp
  have 6: "parse_date sample_now (Some ''15 January 2024'') = Some ''2024-01-15''"
    by code_simp
  have 7: "map_sum id (map order_date \<circ> df)
        (run_cleaning_pipeline pd (\<lambda>i. sample_now)
           [sample_row\<lparr>order_date := Some ''01/15/0999''\<rparr>] new_cleaner)
       = Inr [Some ''999-01-15'']"
    by (cases pd; hypsubst; code_simp)
  show ?thesis using 1 2 3 4 5 6 7 by (intro conjI)
qed

section \<open>Cleaning a cleaned table\<close>

text \<open>
  C1. A table that the pipeline has cleaned need not be left as it is by a second run. The
  price \<^verbatim>\<open>0.001\<close> is cleaned to 0.0, because \<^verbatim>\<open>parse_price\<close> tests the sign before it
  rounds. The table of the first run holds this present price 0.0; the second run, on that
  table, makes the price missing, and its log has the count 1 for \<^verbatim>\<open>clean_prices\<close>.
\<close>

theorem second_run_removes_price:
  "map_sum id df
     (run_cleaning_pipeline pd (\<lambda>i. sample_now) [sample_row\<lparr>price := Text ''0.001''\<rparr>] new_cleaner)
     = Inr [sample_row\<lparr>price := Num (Fin 0)\<rparr>]
   \<and> map_sum id df
       (run_cleaning_pipeline pd (\<lambda>i. sample_now) [sample_row\<lparr>price := Num (Fin 0)\<rparr>] new_cleaner)
       = Inr [sample_row\<lparr>price := Num NaN\<rparr>]
   \<and> sample_row\<lparr>price := Num (Fin 0)\<rparr> \<noteq> sample_row\<lparr>price := Num NaN\<rparr>
   \<and> map_sum id cleaning_log
       (run_cleaning_pipeline pd (\<lambda>i. sample_now) [sample_row\<lparr>price := Num (Fin 0)\<rparr>] new_cleaner)
       = Inr [\<lparr>step = ''clean_whitespace'', description = ''Whitespace cleaned in text fields'',
                count = 0\<rparr>,
              \<lparr>step = ''clean_prices'', description = ''Invalid prices removed'', count = 1\<rparr>]"
proof -
  have 1: "map_sum id df
     (run_cleaning_pipeline pd (\<lambda>i. sample_now) [sample_row\<lparr>price := Text ''0.001''\<rparr>] new_cleaner)
     = Inr [sample_row\<lparr>price := Num (Fin 0)\<rparr>]"
    by (cases pd; hypsubst; code_simp)
  have 2: "map_sum id df
       (run_cleaning_pipeline pd (\<lambda>i. sample_now) [sample_row\<lparr>price := Num (Fin 0)\<rparr>] new_cleaner)
       = Inr [sample_row\<lparr>price := Num NaN\<rparr>]"
    by (cases pd; hypsubst; code_simp)
  have 3: "sample_row\<lparr>price := Num (Fin 0)\<rparr> \<noteq> sample_row\<lparr>price := Num NaN\<rparr>"
    by code_simp
  have 4: "map_sum id cleaning_log
       (run_cleaning_pipeline pd (\<lambda>i. sample_now) [sample_row\<lparr>price := Num (Fin 0)\<rparr>] new_cleaner)
       = Inr [\<lparr>step = ''clean_whitespace'', description = ''Whitespace cleaned in text fields'',
                count = 0\<rparr>,
              \<lparr>step = ''clean_prices'', description = ''Invalid prices removed'', count = 1\<rparr>]"
    by (cases pd; hypsubst; code_simp)
  show ?thesis using 1 2 3 4 by (intro conjI)
qed

end
